theory Spec2Isabelle
  imports Complex_Main "HOL-Library.Multiset"
begin

section \<open>Values of the monitored program\<close>

text \<open>
  The analytics helpers of \<^verbatim>\<open>database.py\<close> and the movement batch of
  \<^verbatim>\<open>activity_detector.py\<close> are embedded as HOL functions.

  \<^item> A Python \<^verbatim>\<open>str\<close> is the list of its code points (\<open>nat list\<close>), so that
    \<^verbatim>\<open>len\<close> counts what Python counts and the em dash (U+2014) and the zero width
    space (U+200B) of the source are single characters.
  \<^item> A \<^verbatim>\<open>datetime\<close> is the number of microseconds since a fixed epoch; the ISO text
    stored in the \<^verbatim>\<open>timestamp\<close> column is represented by the instant it denotes, and
    the textual \<^verbatim>\<open>BETWEEN\<close> / \<^verbatim>\<open>ORDER BY\<close> of the queries by the order of instants
    (they agree on the strings \<^verbatim>\<open>datetime.isoformat()\<close> writes).
  \<^item> A Python \<^verbatim>\<open>float\<close> holding minutes is an exact rational: the model has no
    binary rounding error, only the decimal rounding \<^verbatim>\<open>round(x, 2)\<close> of the source,
    taken to the nearest hundredth with exact ties going to the even one. Where the exact
    value is a tie (such as 0.025) the program rounds the nearest binary float instead and
    may return the other neighbour; the concrete inputs below avoid such values.
\<close>

type_synonym pystr = "nat list"

type_synonym instant = int

definition py :: "string \<Rightarrow> pystr" where
  "py s = map of_char s"

definition total_minutes :: "instant \<Rightarrow> instant \<Rightarrow> rat" where
  \<comment> \<open>\<^verbatim>\<open>(b - a).total_seconds() / 60.0\<close>\<close>
  "total_minutes a b = of_int (b - a) / 60000000"

definition round_half_even :: "rat \<Rightarrow> int" where
  "round_half_even x =
     (let f = \<lfloor>x\<rfloor>; d = x - of_int f
      in if d < 1 / 2 then f else if 1 / 2 < d then f + 1 else if even f then f else f + 1)"

definition round2 :: "rat \<Rightarrow> rat" where
  \<comment> \<open>\<^verbatim>\<open>round(x, 2)\<close>: nearest multiple of 0.01, ties to the even one\<close>
  "round2 x = of_int (round_half_even (x * 100)) / 100"

datatype error = StoreWriteFailure | IndexError

section \<open>The event store\<close>

record event =
  employee_id :: pystr
  timestamp :: instant
  event_type :: pystr
  active_window :: "pystr option"
  process_name :: "pystr option"

text \<open>
  A row of \<^verbatim>\<open>movement_logs\<close>:
  \<^verbatim>\<open>(employee_id, timestamp, event_type, detail, distance_px)\<close>.
  The tuple held in the in-memory batch has the last four components.
\<close>

type_synonym movement = "pystr \<times> pystr \<times> pystr \<times> rat"

type_synonym movement_row = "pystr option \<times> pystr \<times> pystr \<times> pystr \<times> rat"

text \<open>A row of \<^verbatim>\<open>screenshots\<close>: \<^verbatim>\<open>(employee_id, timestamp, path, reason)\<close>.\<close>

type_synonym screenshot_row = "pystr \<times> instant \<times> pystr \<times> pystr"

record store =
  employees :: "pystr list"
  events :: "event list"
  screenshots :: "screenshot_row list"
  movement_logs :: "movement_row list"
  accepts_writes :: bool

text \<open>
  \<^verbatim>\<open>SELECT ... FROM events WHERE employee_id=? AND timestamp BETWEEN ? AND ? ORDER BY timestamp\<close>.
  Rows with equal timestamps keep their insertion order.
\<close>

definition select_events :: "store \<Rightarrow> pystr \<Rightarrow> instant \<Rightarrow> instant \<Rightarrow> event list" where
  "select_events db emp start_iso end_iso =
     sort_key timestamp
       (filter (\<lambda>e. employee_id e = emp \<and> start_iso \<le> timestamp e \<and> timestamp e \<le> end_iso)
          (events db))"

definition usec_per_day :: int where
  "usec_per_day = 86400000000"

definition day_bounds :: "int \<Rightarrow> instant \<times> instant" where
  \<comment> \<open>\<^verbatim>\<open>_day_bounds\<close>: 00:00:00 and 23:59:59.999999 of the day\<close>
  "day_bounds day = (day * usec_per_day, day * usec_per_day + (usec_per_day - 1))"

definition utc_date :: "instant \<Rightarrow> int" where
  \<comment> \<open>\<^verbatim>\<open>datetime.utcnow().date()\<close> for the clock reading \<open>now\<close>\<close>
  "utc_date now = now div usec_per_day"

section \<open>Timeline segmenter: \<^verbatim>\<open>_sum_active_idle\<close>\<close>

datatype prev_state = active | idle

definition reclassify :: "pystr \<Rightarrow> prev_state \<Rightarrow> prev_state" where
  "reclassify ev st =
     (if ev \<in> set [py ''active'', py ''window_change'', py ''non_work_detected''] then active
      else if ev \<in> set [py ''idle'', py ''idle_photo''] then idle
      else st)"

text \<open>
  The \<^verbatim>\<open>for r in rows\<close> loop; the state is
  \<^verbatim>\<open>(prev_ts, prev_state, active_min, idle_min)\<close>.
\<close>

fun segment_loop ::
  "event list \<Rightarrow> instant \<Rightarrow> prev_state \<Rightarrow> rat \<Rightarrow> rat \<Rightarrow> instant \<times> prev_state \<times> rat \<times> rat" where
  "segment_loop [] prev_ts st active_min idle_min = (prev_ts, st, active_min, idle_min)"
| "segment_loop (r # rows) prev_ts st active_min idle_min =
     (let ts = timestamp r;
          delta = total_minutes prev_ts ts
      in segment_loop rows ts (reclassify (event_type r) st)
           (if st = active then active_min + max 0 delta else active_min)
           (if st = active then idle_min else idle_min + max 0 delta))"

definition close_tail :: "instant \<Rightarrow> instant \<times> prev_state \<times> rat \<times> rat \<Rightarrow> rat \<times> rat" where
  "close_tail end_dt s =
     (case s of (prev_ts, st, active_min, idle_min) \<Rightarrow>
        if prev_ts < end_dt then
          (let delta = total_minutes prev_ts end_dt
           in if st = active then (active_min + max 0 delta, idle_min)
              else (active_min, idle_min + max 0 delta))
        else (active_min, idle_min))"

definition sum_active_idle :: "store \<Rightarrow> pystr \<Rightarrow> instant \<Rightarrow> instant \<Rightarrow> rat \<times> rat" where
  "sum_active_idle db emp start_iso end_iso =
     (case select_events db emp start_iso end_iso of
        [] \<Rightarrow> (0, 0)
      | r0 # rest \<Rightarrow>
          (case close_tail end_iso (segment_loop (r0 # rest) (timestamp r0) idle 0 0) of
             (active_min, idle_min) \<Rightarrow> (round2 active_min, round2 idle_min)))"

section \<open>Session reconstruction: \<^verbatim>\<open>get_continuous_sessions\<close>\<close>

record session =
  session_start :: instant
  session_end :: instant
  duration_seconds :: int

definition int_seconds :: "instant \<Rightarrow> instant \<Rightarrow> int" where
  \<comment> \<open>\<^verbatim>\<open>int((b - a).total_seconds())\<close>: truncation towards zero\<close>
  "int_seconds a b = (if a \<le> b then (b - a) div 1000000 else - ((a - b) div 1000000))"

fun session_loop :: "event list \<Rightarrow> instant option \<Rightarrow> session list \<Rightarrow> session list" where
  "session_loop [] current_start sessions = sessions"
| "session_loop (r # rows) current_start sessions =
     (let ts = timestamp r; ev = event_type r;
          current_start1 =
            (if ev \<in> set [py ''active'', py ''window_change''] \<and> current_start = None
             then Some ts else current_start)
      in case current_start1 of
           None \<Rightarrow> session_loop rows None sessions
         | Some cs \<Rightarrow>
             if ev \<in> set [py ''idle'', py ''idle_photo'', py ''non_work_detected'']
             then session_loop rows None
                    (sessions @ [\<lparr>session_start = cs, session_end = ts,
                                   duration_seconds = int_seconds cs ts\<rparr>])
             else session_loop rows (Some cs) sessions)"

definition get_continuous_sessions :: "store \<Rightarrow> instant \<Rightarrow> pystr \<Rightarrow> int option \<Rightarrow> session list" where
  "get_continuous_sessions db now emp day =
     (let d = (case day of Some d \<Rightarrow> d | None \<Rightarrow> utc_date now);
          (start_iso, end_iso) = day_bounds d
      in session_loop (select_events db emp start_iso end_iso) None [])"

section \<open>Ingestion buffer: \<^verbatim>\<open>ActivityDetector\<close>\<close>

record detector =
  movement_events :: "movement list"
  detector_employee_id :: "pystr option"

text \<open>
  \<^verbatim>\<open>log_movement_batch\<close> returns at once on an empty list. Otherwise it inserts one row per
  tuple and commits. A rejected write (\<^verbatim>\<open>sqlite3\<close> raising at connect, insert or commit)
  leaves the table as it was, since nothing has been committed, and the exception leaves the
  function.
\<close>

definition log_movement_batch :: "store \<Rightarrow> movement list \<Rightarrow> pystr option \<Rightarrow> error + store" where
  "log_movement_batch db evs emp =
     (if evs = [] then Inr db
      else if \<not> accepts_writes db then Inl StoreWriteFailure
      else Inr (db\<lparr>movement_logs := movement_logs db @
                  map (\<lambda>(ts, event_type, detail, distance). (emp, ts, event_type, detail, distance)) evs\<rparr>))"

text \<open>
  A method of the detector returns the detector and the store; when it raises, the result
  is \<open>Inl\<close> of the exception together with the detector and the store as the exception
  leaves them.
\<close>

definition flush_batch :: "detector \<Rightarrow> store \<Rightarrow> error \<times> detector \<times> store + detector \<times> store" where
  "flush_batch det db =
     (if movement_events det \<noteq> [] then
        (case log_movement_batch db (movement_events det) (detector_employee_id det) of
           Inl e \<Rightarrow> Inl (e, det, db)
         | Inr db' \<Rightarrow> Inr (det\<lparr>movement_events := []\<rparr>, db'))
      else Inr (det, db))"

definition add_event :: "detector \<Rightarrow> store \<Rightarrow> movement \<Rightarrow> error \<times> detector \<times> store + detector \<times> store" where
  "add_event det db event =
     (let det1 = det\<lparr>movement_events := movement_events det @ [event]\<rparr>
      in if 50 \<le> length (movement_events det1) then flush_batch det1 db else Inr (det1, db))"

text \<open>Successive calls of \<^verbatim>\<open>_add_event\<close> by the listeners, one record each.\<close>

fun add_events :: "detector \<Rightarrow> store \<Rightarrow> movement list \<Rightarrow> error \<times> detector \<times> store + detector \<times> store" where
  "add_events det db [] = Inr (det, db)"
| "add_events det db (event # rest) =
     (case add_event det db event of
        Inl x \<Rightarrow> Inl x
      | Inr (det', db') \<Rightarrow> add_events det' db' rest)"

section \<open>String operations of Python used by the normalizer\<close>

definition isspace :: "nat \<Rightarrow> bool" where
  \<comment> \<open>the code points for which \<^verbatim>\<open>str.isspace\<close> holds\<close>
  "isspace c \<longleftrightarrow>
     (9 \<le> c \<and> c \<le> 13) \<or> (28 \<le> c \<and> c \<le> 32) \<or> c = 133 \<or> c = 160 \<or> c = 5760
     \<or> (8192 \<le> c \<and> c \<le> 8202) \<or> c = 8232 \<or> c = 8233 \<or> c = 8239 \<or> c = 8287 \<or> c = 12288"

definition strip :: "pystr \<Rightarrow> pystr" where
  "strip s = rev (dropWhile isspace (rev (dropWhile isspace s)))"

fun startswith :: "pystr \<Rightarrow> pystr \<Rightarrow> bool" where
  "startswith s [] = True"
| "startswith [] (p # ps) = False"
| "startswith (c # s) (p # ps) = (c = p \<and> startswith s ps)"

definition endswith :: "pystr \<Rightarrow> pystr \<Rightarrow> bool" where
  "endswith s suffix = startswith (rev s) (rev suffix)"

fun contains :: "pystr \<Rightarrow> pystr \<Rightarrow> bool" where
  \<comment> \<open>\<^verbatim>\<open>sub in s\<close>\<close>
  "contains sub [] = (sub = [])"
| "contains sub (c # s) = (startswith (c # s) sub \<or> contains sub s)"

text \<open>
  \<^verbatim>\<open>s.split(sep)\<close> for a non-empty separator, scanning from the left; \<open>cur\<close> is the
  segment being read. Every separator in the source is a non-empty literal (Python raises
  \<^verbatim>\<open>ValueError\<close> on an empty one; here an empty separator never matches).
\<close>

function split_from :: "pystr \<Rightarrow> pystr \<Rightarrow> pystr \<Rightarrow> pystr list" where
  "split_from sep cur [] = [cur]"
| "split_from sep cur (c # s) =
     (if sep \<noteq> [] \<and> startswith (c # s) sep
      then cur # split_from sep [] (drop (length sep) (c # s))
      else split_from sep (cur @ [c]) s)"
  by pat_completeness auto
termination
  by (relation "measure (\<lambda>(sep, cur, s). length s)") (auto simp: Suc_diff_le intro: diff_less)

definition split :: "pystr \<Rightarrow> pystr \<Rightarrow> pystr list" where
  "split s sep = split_from sep [] s"

text \<open>\<^verbatim>\<open>s.split()\<close>: the maximal runs of characters that are not white space.\<close>

fun split_whitespace_from :: "pystr \<Rightarrow> pystr \<Rightarrow> pystr list" where
  "split_whitespace_from cur [] = (if cur = [] then [] else [cur])"
| "split_whitespace_from cur (c # s) =
     (if isspace c
      then (if cur = [] then split_whitespace_from [] s else cur # split_whitespace_from [] s)
      else split_whitespace_from (cur @ [c]) s)"

definition split_whitespace :: "pystr \<Rightarrow> pystr list" where
  "split_whitespace s = split_whitespace_from [] s"

text \<open>
  \<^verbatim>\<open>str.lower\<close> and \<^verbatim>\<open>str.title\<close> are modelled on the letters A-Z and a-z; every other
  code point is left as it is and counts as uncased.
\<close>

definition lower_char :: "nat \<Rightarrow> nat" where
  "lower_char c = (if 65 \<le> c \<and> c \<le> 90 then c + 32 else c)"

definition upper_char :: "nat \<Rightarrow> nat" where
  "upper_char c = (if 97 \<le> c \<and> c \<le> 122 then c - 32 else c)"

definition is_cased :: "nat \<Rightarrow> bool" where
  "is_cased c \<longleftrightarrow> (65 \<le> c \<and> c \<le> 90) \<or> (97 \<le> c \<and> c \<le> 122)"

definition lower :: "pystr \<Rightarrow> pystr" where
  "lower s = map lower_char s"

fun title_from :: "bool \<Rightarrow> pystr \<Rightarrow> pystr" where
  "title_from previous_cased [] = []"
| "title_from previous_cased (c # s) =
     (if is_cased c
      then (if previous_cased then lower_char c else upper_char c) # title_from True s
      else c # title_from False s)"

definition title :: "pystr \<Rightarrow> pystr" where
  "title s = title_from False s"

definition py_or :: "pystr option \<Rightarrow> pystr \<Rightarrow> pystr" where
  \<comment> \<open>\<^verbatim>\<open>x or d\<close> for an optional string: \<^verbatim>\<open>None\<close> and \<^verbatim>\<open>''\<close> are falsy\<close>
  "py_or x dflt = (case x of None \<Rightarrow> dflt | Some s \<Rightarrow> if s = [] then dflt else s)"

text \<open>
  A \<^verbatim>\<open>dict\<close> is an association list in insertion order: assigning to a present key keeps
  its position, assigning to a new key appends.
\<close>

fun dict_set :: "('k \<times> 'v) list \<Rightarrow> 'k \<Rightarrow> 'v \<Rightarrow> ('k \<times> 'v) list" where
  "dict_set [] k v = [(k, v)]"
| "dict_set ((k', v') # d) k v = (if k' = k then (k', v) # d else (k', v') # dict_set d k v)"

definition dict_get :: "('k \<times> 'v) list \<Rightarrow> 'k \<Rightarrow> 'v \<Rightarrow> 'v" where
  "dict_get d k dflt = (case map_of d k of None \<Rightarrow> dflt | Some v \<Rightarrow> v)"

definition sorted_by_value_desc :: "('k \<times> rat) list \<Rightarrow> ('k \<times> rat) list" where
  \<comment> \<open>\<^verbatim>\<open>sorted(d.items(), key=lambda x: x[1], reverse=True)\<close>: stable\<close>
  "sorted_by_value_desc items = sort_key (\<lambda>kv. - snd kv) items"

section \<open>Application identity: \<^verbatim>\<open>_normalize\<close> and \<^verbatim>\<open>_display_from\<close>\<close>

definition separators :: "pystr list" where
  \<comment> \<open>the third one is space, em dash (U+2014), space\<close>
  "separators = [py '' - '', py '' | '', [32, 8212, 32], py '' :: '']"

text \<open>One round of the loop over the separators in \<^verbatim>\<open>_normalize\<close>.\<close>

definition cut_separator :: "pystr \<Rightarrow> pystr \<Rightarrow> pystr" where
  "cut_separator sep n =
     (if contains sep n
      then (if length (last (split n sep)) < 8 then last (split n sep) else hd (split n sep))
      else n)"

definition cut_separators :: "pystr \<Rightarrow> pystr" where
  \<comment> \<open>the whole loop: it has no \<^verbatim>\<open>break\<close>\<close>
  "cut_separators n = fold cut_separator separators n"

definition aliases :: "(pystr \<times> pystr) list" where
  "aliases =
     [(py ''chrome'', py ''chrome''), (py ''msedge'', py ''edge''),
      (py ''microsoft edge'', py ''edge''),
      (py ''brave'', py ''brave''), (py ''firefox'', py ''firefox''), (py ''opera'', py ''opera''),
      (py ''code'', py ''vscode''), (py ''visual studio code'', py ''vscode''),
      (py ''winword'', py ''word''), (py ''word'', py ''word''),
      (py ''excel'', py ''excel''), (py ''powerpnt'', py ''powerpoint''),
      (py ''powerpoint'', py ''powerpoint''),
      (py ''outlook'', py ''outlook''), (py ''teams'', py ''teams''), (py ''slack'', py ''slack''),
      (py ''discord'', py ''discord''),
      (py ''explorer'', py ''explorer''), (py ''notepad'', py ''notepad''),
      (py ''notepad++'', py ''notepad++''),
      (py ''pycharm'', py ''pycharm''), (py ''idea64'', py ''intellij''),
      (py ''studio64'', py ''android-studio''),
      (py ''zoom'', py ''zoom''), (py ''whatsapp'', py ''whatsapp''),
      (py ''telegram'', py ''telegram'')]"

text \<open>
  The string \<open>n\<close> that \<^verbatim>\<open>_normalize\<close> matches against the alias table: stripped, cut at
  the separators, without zero width spaces, lower case, without a trailing \<^verbatim>\<open>.exe\<close>, and
  reduced to what follows the last backslash (92) and then the last slash (47).
\<close>

definition normalized_form :: "pystr \<Rightarrow> pystr" where
  "normalized_form name =
     (let n = strip name;
          n = cut_separators n;
          n = strip (filter (\<lambda>c. c \<noteq> 8203) n);
          n = lower n;
          n = (if endswith n (py ''.exe'') then take (length n - 4) n else n)
      in last (split (last (split n [92])) [47]))"

definition normalize_name :: "pystr option \<Rightarrow> error + pystr" where
  \<comment> \<open>\<^verbatim>\<open>_normalize\<close>\<close>
  "normalize_name name =
     (case name of
        None \<Rightarrow> Inr (py ''unknown'')
      | Some s \<Rightarrow>
          if s = [] then Inr (py ''unknown'')
          else
            (let n = normalized_form s
             in case find (\<lambda>(k, v). contains k n) aliases of
                  Some (k, v) \<Rightarrow> Inr v
                | None \<Rightarrow>
                    (case split_whitespace n of
                       [] \<Rightarrow> Inl IndexError
                     | base # other \<Rightarrow> Inr base)))"

definition min_by_len :: "pystr list \<Rightarrow> pystr" where
  \<comment> \<open>\<^verbatim>\<open>min(parts, key=len)\<close>: the first of the shortest; the list is never empty here\<close>
  "min_by_len parts =
     (case parts of
        [] \<Rightarrow> []
      | p # rest \<Rightarrow> fold (\<lambda>q m. if length q < length m then q else m) rest p)"

definition display_from :: "pystr option \<Rightarrow> pystr" where
  "display_from raw =
     (case raw of
        None \<Rightarrow> py ''Unknown''
      | Some s \<Rightarrow>
          if s = [] then py ''Unknown''
          else
            (let txt = strip s
             in case find (\<lambda>sep. contains sep txt) separators of
                  None \<Rightarrow> take 80 txt
                | Some sep \<Rightarrow>
                    (let parts = filter (\<lambda>p. \<not> contains [47] p \<and> \<not> contains [92] p) (split txt sep);
                         parts = (if parts = [] then [txt] else parts)
                     in take 80 (min_by_len parts))))"

section \<open>Usage aggregator: \<^verbatim>\<open>get_apps_usage\<close>\<close>

record usage =
  app :: pystr
  key :: pystr
  minutes :: rat

type_synonym app_row = "instant \<times> pystr \<times> pystr option"

definition select_app_rows :: "store \<Rightarrow> pystr \<Rightarrow> instant \<Rightarrow> instant \<Rightarrow> app_row list" where
  \<comment> \<open>\<^verbatim>\<open>SELECT timestamp, event_type, COALESCE(process_name, active_window) AS app\<close>\<close>
  "select_app_rows db emp start_iso end_iso =
     map (\<lambda>e. (timestamp e, event_type e,
                (case process_name e of Some p \<Rightarrow> Some p | None \<Rightarrow> active_window e)))
       (select_events db emp start_iso end_iso)"

record usage_state =
  prev_ts :: instant
  prev_raw :: pystr
  prev_key :: pystr
  prev_state :: prev_state
  minutes_by_key :: "(pystr \<times> rat) list"
  name_by_key :: "(pystr \<times> pystr) list"

text \<open>Adding \<open>delta_min\<close> minutes to the current key, and naming the key when it is new.\<close>

definition credit :: "usage_state \<Rightarrow> rat \<Rightarrow> usage_state" where
  "credit st delta_min =
     st\<lparr>minutes_by_key :=
          dict_set (minutes_by_key st) (prev_key st)
            (dict_get (minutes_by_key st) (prev_key st) 0 + max 0 delta_min),
        name_by_key :=
          (if map_of (name_by_key st) (prev_key st) = None
           then dict_set (name_by_key st) (prev_key st) (display_from (Some (prev_raw st)))
           else name_by_key st)\<rparr>"

fun usage_loop :: "app_row list \<Rightarrow> usage_state \<Rightarrow> error + usage_state" where
  "usage_loop [] st = Inr st"
| "usage_loop ((ts, ev_type, raw) # rows) st =
     (let delta_min = total_minutes (prev_ts st) ts;
          st1 = (if prev_state st = active then credit st delta_min else st)\<lparr>prev_ts := ts\<rparr>
      in if ev_type \<in> set [py ''active'', py ''window_change'', py ''non_work_detected'']
         then (let raw1 = py_or raw (prev_raw st1)
               in case normalize_name (Some raw1) of
                    Inl e \<Rightarrow> Inl e
                  | Inr k \<Rightarrow>
                      usage_loop rows (st1\<lparr>prev_state := active, prev_raw := raw1, prev_key := k\<rparr>))
         else if ev_type \<in> set [py ''idle'', py ''idle_photo'']
         then usage_loop rows (st1\<lparr>prev_state := idle\<rparr>)
         else usage_loop rows st1)"

definition usage_out :: "(pystr \<times> rat) list \<Rightarrow> (pystr \<times> pystr) list \<Rightarrow> usage list" where
  \<comment> \<open>the final list comprehension, shared in shape by both aggregations\<close>
  "usage_out totals names =
     map (\<lambda>(k, v). \<lparr>app = dict_get names k (title k), key = k, minutes = round2 v\<rparr>)
       (filter (\<lambda>(k, v). 0 < v) (sorted_by_value_desc totals))"

text \<open>
  \<open>now\<close> is the value that \<^verbatim>\<open>datetime.utcnow()\<close> returns during the call. The only
  exception that can leave the function is the \<^verbatim>\<open>IndexError\<close> of \<^verbatim>\<open>_normalize\<close>.
\<close>

definition close_usage_tail :: "usage_state \<Rightarrow> instant \<Rightarrow> usage_state" where
  \<comment> \<open>\<^verbatim>\<open>if prev_state == 'active' and tail_end > prev_ts: ...\<close>\<close>
  "close_usage_tail st tail_end =
     (if prev_state st = active \<and> prev_ts st < tail_end
      then credit st (total_minutes (prev_ts st) tail_end)
      else st)"

definition get_apps_usage :: "store \<Rightarrow> instant \<Rightarrow> pystr \<Rightarrow> int option \<Rightarrow> error + usage list" where
  "get_apps_usage db now emp day =
     (let d = (case day of Some d \<Rightarrow> d | None \<Rightarrow> utc_date now);
          (start_iso, end_iso) = day_bounds d
      in case select_app_rows db emp start_iso end_iso of
           [] \<Rightarrow> Inr []
         | (ts0, ev0, raw0) # rest \<Rightarrow>
             (let raw = py_or raw0 (py ''Unknown'')
              in case normalize_name (Some raw) of
                   Inl e \<Rightarrow> Inl e
                 | Inr k \<Rightarrow>
                     (case usage_loop ((ts0, ev0, raw0) # rest)
                             \<lparr>prev_ts = ts0, prev_raw = raw, prev_key = k, prev_state = idle,
                               minutes_by_key = [], name_by_key = []\<rparr> of
                        Inl e \<Rightarrow> Inl e
                      | Inr st \<Rightarrow>
                          (let tail_end = min now end_iso;
                               st' = close_usage_tail st tail_end
                           in Inr (usage_out (minutes_by_key st') (name_by_key st'))))))"

section \<open>Company rollup: \<^verbatim>\<open>get_company_apps_usage\<close>\<close>

definition item_key :: "usage \<Rightarrow> pystr" where
  \<comment> \<open>\<^verbatim>\<open>item.get('key') or (item.get('app') or '').lower()\<close>\<close>
  "item_key item = (if key item \<noteq> [] then key item else lower (app item))"

definition item_label :: "usage \<Rightarrow> pystr" where
  \<comment> \<open>\<^verbatim>\<open>item.get('app') or key.title()\<close>\<close>
  "item_label item = (if app item \<noteq> [] then app item else title (item_key item))"

definition rollup_item ::
  "usage \<Rightarrow> (pystr \<times> rat) list \<times> (pystr \<times> pystr) list
     \<Rightarrow> (pystr \<times> rat) list \<times> (pystr \<times> pystr) list" where
  "rollup_item item acc =
     (case acc of (totals, names) \<Rightarrow>
        (dict_set totals (item_key item) (dict_get totals (item_key item) 0 + minutes item),
         if map_of names (item_key item) = None
         then dict_set names (item_key item) (item_label item) else names))"

text \<open>
  One round of \<^verbatim>\<open>for eid in employee_ids\<close>: a subject whose \<^verbatim>\<open>get_apps_usage\<close> raised
  is skipped (\<^verbatim>\<open>except Exception: continue\<close>).
\<close>

definition rollup_employee ::
  "error + usage list \<Rightarrow> (pystr \<times> rat) list \<times> (pystr \<times> pystr) list
     \<Rightarrow> (pystr \<times> rat) list \<times> (pystr \<times> pystr) list" where
  "rollup_employee apps acc = (case apps of Inl e \<Rightarrow> acc | Inr items \<Rightarrow> fold rollup_item items acc)"

definition company_rollup :: "(error + usage list) list \<Rightarrow> usage list" where
  "company_rollup reports =
     (case fold rollup_employee reports ([], []) of
        (totals, names) \<Rightarrow> usage_out totals names)"

definition get_company_apps_usage :: "store \<Rightarrow> instant \<Rightarrow> int option \<Rightarrow> usage list" where
  "get_company_apps_usage db now day =
     (let d = (case day of Some d \<Rightarrow> d | None \<Rightarrow> utc_date now)
      in company_rollup (map (\<lambda>eid. get_apps_usage db now eid (Some d)) (employees db)))"

section \<open>Daily statistics: \<^verbatim>\<open>get_daily_stats\<close>\<close>

record daily_stats =
  date :: int
  active_time_min :: rat
  idle_time_min :: rat
  screenshot_count :: nat
  idle_photo_count :: nat
  top_apps :: "(pystr \<times> rat) list"

type_synonym stats_row = "instant \<times> pystr \<times> pystr option"

definition select_stats_rows :: "store \<Rightarrow> pystr \<Rightarrow> instant \<Rightarrow> instant \<Rightarrow> stats_row list" where
  \<comment> \<open>\<^verbatim>\<open>SELECT timestamp, event_type, active_window\<close>\<close>
  "select_stats_rows db emp start_iso end_iso =
     map (\<lambda>e. (timestamp e, event_type e, active_window e))
       (select_events db emp start_iso end_iso)"

definition count_screenshots :: "store \<Rightarrow> pystr \<Rightarrow> instant \<Rightarrow> instant \<Rightarrow> nat" where
  "count_screenshots db emp start_iso end_iso =
     length (filter (\<lambda>(e, ts, path, reason). e = emp \<and> start_iso \<le> ts \<and> ts \<le> end_iso)
               (screenshots db))"

definition count_idle_photos :: "store \<Rightarrow> pystr \<Rightarrow> instant \<Rightarrow> instant \<Rightarrow> nat" where
  "count_idle_photos db emp start_iso end_iso =
     length (filter (\<lambda>e. employee_id e = emp \<and> event_type e = py ''idle_photo''
                          \<and> start_iso \<le> timestamp e \<and> timestamp e \<le> end_iso)
               (events db))"

text \<open>
  The \<^verbatim>\<open>for r in rows\<close> loop of \<^verbatim>\<open>get_daily_stats\<close>; the state is
  \<^verbatim>\<open>(prev_ts, prev_state, active_time, idle_time, app_usage)\<close>. The function returns
  right after the loop: there is no statement between the loop and the sorting of
  \<^verbatim>\<open>app_usage\<close>.
\<close>

fun daily_loop ::
  "stats_row list \<Rightarrow> instant \<Rightarrow> prev_state \<Rightarrow> rat \<Rightarrow> rat \<Rightarrow> (pystr \<times> rat) list
     \<Rightarrow> rat \<times> rat \<times> (pystr \<times> rat) list" where
  "daily_loop [] last_ts st active_time idle_time app_usage = (active_time, idle_time, app_usage)"
| "daily_loop ((ts, ev, win) # rows) last_ts st active_time idle_time app_usage =
     (let delta_min = total_minutes last_ts ts
      in daily_loop rows ts (reclassify ev st)
           (if st = active then active_time + max 0 delta_min else active_time)
           (if st = active then idle_time else idle_time + max 0 delta_min)
           (case win of
              None \<Rightarrow> app_usage
            | Some w \<Rightarrow>
                if w = [] then app_usage
                else dict_set app_usage w (dict_get app_usage w 0 + max 0 delta_min)))"

definition get_daily_stats :: "store \<Rightarrow> instant \<Rightarrow> pystr \<Rightarrow> int option \<Rightarrow> daily_stats" where
  "get_daily_stats db now emp day =
     (let d = (case day of Some d \<Rightarrow> d | None \<Rightarrow> utc_date now);
          (start_iso, end_iso) = day_bounds d
      in case select_stats_rows db emp start_iso end_iso of
           [] \<Rightarrow>
             \<lparr>date = d, active_time_min = 0, idle_time_min = 0,
              screenshot_count = count_screenshots db emp start_iso end_iso,
              idle_photo_count = count_idle_photos db emp start_iso end_iso,
              top_apps = []\<rparr>
         | (ts0, ev0, win0) # rest \<Rightarrow>
             (case daily_loop ((ts0, ev0, win0) # rest) ts0 idle 0 0 [] of
                (active_time, idle_time, app_usage) \<Rightarrow>
                  \<lparr>date = d, active_time_min = round2 active_time,
                   idle_time_min = round2 idle_time,
                   screenshot_count = count_screenshots db emp start_iso end_iso,
                   idle_photo_count = count_idle_photos db emp start_iso end_iso,
                   top_apps = take 5 (sorted_by_value_desc app_usage)\<rparr>))"

section \<open>Properties of the timeline segmenter\<close>

lemma total_minutes_add: "total_minutes a b + total_minutes b c = total_minutes a c"
  by (simp add: total_minutes_def add_divide_distrib [symmetric])

lemma total_minutes_nonneg: "a \<le> b \<Longrightarrow> 0 \<le> total_minutes a b"
  by (simp add: total_minutes_def)

lemma segment_loop_sum:
  "sorted (map timestamp rows) \<Longrightarrow> \<forall>r \<in> set rows. p \<le> timestamp r \<Longrightarrow>
   segment_loop rows p st a i = (p', st', a', i') \<Longrightarrow>
   p' = last (p # map timestamp rows) \<and> a' + i' = a + i + total_minutes p p'"
proof (induction rows arbitrary: p st a i)
  case Nil
  then show ?case by (simp add: total_minutes_def)
next
  case (Cons r rows)
  let ?ts = "timestamp r"
  have le: "p \<le> ?ts" using Cons.prems(2) by simp
  have srt: "sorted (map timestamp rows)" and bnd: "\<forall>x \<in> set rows. ?ts \<le> timestamp x"
    using Cons.prems(1) by simp_all
  have step: "segment_loop rows ?ts (reclassify (event_type r) st)
      (if st = active then a + max 0 (total_minutes p ?ts) else a)
      (if st = active then i else i + max 0 (total_minutes p ?ts)) = (p', st', a', i')"
    using Cons.prems(3) by (simp add: Let_def)
  from Cons.IH [OF srt bnd step]
  have p': "p' = last (?ts # map timestamp rows)"
    and s: "a' + i' = (if st = active then a + max 0 (total_minutes p ?ts) else a)
        + (if st = active then i else i + max 0 (total_minutes p ?ts)) + total_minutes ?ts p'"
    by simp_all
  have m: "max 0 (total_minutes p ?ts) = total_minutes p ?ts"
    using total_minutes_nonneg [OF le] by simp
  have "a' + i' = a + i + (total_minutes p ?ts + total_minutes ?ts p')"
    using s m by (cases "st = active") simp_all
  then show ?case using p' by (simp add: total_minutes_add)
qed

lemma select_events_sorted: "sorted (map timestamp (select_events db emp s en))"
  by (simp add: select_events_def)

lemma select_events_set:
  "set (select_events db emp s en) =
     {e \<in> set (events db). employee_id e = emp \<and> s \<le> timestamp e \<and> timestamp e \<le> en}"
  by (auto simp: select_events_def)

lemma round_half_even_close: "\<bar>of_int (round_half_even y) - y\<bar> \<le> 1 / 2"
proof -
  define d where "d = y - of_int \<lfloor>y\<rfloor>"
  have d: "0 \<le> d" "d < 1" unfolding d_def by linarith+
  have y: "y = of_int \<lfloor>y\<rfloor> + d" by (simp add: d_def)
  consider "d < 1 / 2" | "1 / 2 < d" | "d = 1 / 2" by linarith
  then show ?thesis
  proof cases
    case 1
    then have "round_half_even y = \<lfloor>y\<rfloor>"
      by (simp add: round_half_even_def Let_def d_def)
    then show ?thesis using 1 d y by (simp add: abs_if)
  next
    case 2
    then have "round_half_even y = \<lfloor>y\<rfloor> + 1"
      by (simp add: round_half_even_def Let_def d_def)
    then show ?thesis using 2 d y by (simp add: abs_if)
  next
    case 3
    then have "round_half_even y = \<lfloor>y\<rfloor> \<or> round_half_even y = \<lfloor>y\<rfloor> + 1"
      by (simp add: round_half_even_def Let_def d_def)
    then show ?thesis using 3 y by (auto simp: abs_if)
  qed
qed

lemma round2_close: "\<bar>round2 x - x\<bar> \<le> 1 / 200"
proof -
  have "\<bar>round2 x - x\<bar> = \<bar>of_int (round_half_even (x * 100)) - x * 100\<bar> / 100"
    by (simp add: round2_def abs_if field_simps)
  also have "\<dots> \<le> (1 / 2) / 100"
    using round_half_even_close [of "x * 100"] by (simp add: divide_right_mono)
  finally show ?thesis by simp
qed

lemma segment_loop_last_ts:
  "segment_loop rows p st a i = (p', st', a', i') \<Longrightarrow> p' = last (p # map timestamp rows)"
  by (induction rows arbitrary: p st a i) (simp_all add: Let_def)

text \<open>
  Claim C7. When no event of the subject lies in the query window, the timeline aggregation
  returns zero active and zero idle minutes, and the session reconstruction of that day
  returns the empty list; nothing is raised.
\<close>

theorem empty_window_all_zero:
  assumes "\<forall>e \<in> set (events db). employee_id e = emp \<longrightarrow> \<not> (s \<le> timestamp e \<and> timestamp e \<le> en)"
  shows "sum_active_idle db emp s en = (0, 0) \<and>
         (day_bounds d = (s, en) \<longrightarrow> get_continuous_sessions db now emp (Some d) = [])"
proof -
  have "set (select_events db emp s en) = {}"
    using assms unfolding select_events_set by blast
  then have "select_events db emp s en = []" by simp
  then show ?thesis
    by (simp add: sum_active_idle_def get_continuous_sessions_def)
qed

text \<open>
  The store holds one event of the subject on the following day; the queried day is empty.
\<close>

theorem empty_window_all_zero_witness:
  "sum_active_idle \<lparr>employees = [py ''e1''],
       events = [\<lparr>employee_id = py ''e1'', timestamp = 90000000000, event_type = py ''active'',
                  active_window = None, process_name = None\<rparr>],
       screenshots = [], movement_logs = [], accepts_writes = True\<rparr> (py ''e1'') 0 86399999999 = (0, 0)
   \<and> get_continuous_sessions \<lparr>employees = [py ''e1''],
       events = [\<lparr>employee_id = py ''e1'', timestamp = 90000000000, event_type = py ''active'',
                  active_window = None, process_name = None\<rparr>],
       screenshots = [], movement_logs = [], accepts_writes = True\<rparr> 100000000000 (py ''e1'') (Some 0) = []"
  using empty_window_all_zero [of "\<lparr>employees = [py ''e1''],
       events = [\<lparr>employee_id = py ''e1'', timestamp = 90000000000, event_type = py ''active'',
                  active_window = None, process_name = None\<rparr>],
       screenshots = [], movement_logs = [], accepts_writes = True\<rparr>" "py ''e1''" 0 86399999999 0 100000000000]
  by (simp add: day_bounds_def usec_per_day_def)

text \<open>
  The tail step of \<^verbatim>\<open>_sum_active_idle\<close>. After its loop over a non-empty result set,
  \<open>prev_ts\<close> is the timestamp of the last row; when the end of the range is strictly
  later, the whole duration from \<open>prev_ts\<close> to the end is added to the active minutes if
  the last classified state is active and to the idle minutes otherwise, before the two
  sums are rounded.
\<close>

theorem tail_closing:
  assumes rows: "select_events db emp s en = rows" and ne: "rows \<noteq> []"
    and loop: "segment_loop rows (timestamp (hd rows)) idle 0 0 = (last_ts, st, a, i)"
    and later: "last_ts < en"
  shows "last_ts = timestamp (last rows) \<and>
         sum_active_idle db emp s en =
           (if st = active then (round2 (a + total_minutes last_ts en), round2 i)
            else (round2 a, round2 (i + total_minutes last_ts en)))"
proof -
  obtain r0 rest where rr: "rows = r0 # rest" using ne by (cases rows) auto
  have p: "last_ts = timestamp (last rows)"
    using segment_loop_last_ts [OF loop] ne by (simp add: rr last_map)
  have m: "max 0 (total_minutes last_ts en) = total_minutes last_ts en"
    using total_minutes_nonneg [of last_ts en] later by simp
  have "sum_active_idle db emp s en =
      (case close_tail en (last_ts, st, a, i) of (x, y) \<Rightarrow> (round2 x, round2 y))"
    using rows loop by (simp add: sum_active_idle_def rr)
  then show ?thesis using p later m by (simp add: close_tail_def Let_def)
qed

text \<open>
  One \<^verbatim>\<open>window_change\<close> five minutes into a twenty minute range: the fifteen minutes
  after it are credited as active.
\<close>

theorem tail_closing_witness:
  "select_events \<lparr>employees = [py ''e1''],
       events = [\<lparr>employee_id = py ''e1'', timestamp = 300000000, event_type = py ''window_change'',
                  active_window = None, process_name = None\<rparr>],
       screenshots = [], movement_logs = [], accepts_writes = True\<rparr> (py ''e1'') 0 1200000000 \<noteq> []
   \<and> (300000000 :: int) < 1200000000
   \<and> sum_active_idle \<lparr>employees = [py ''e1''],
       events = [\<lparr>employee_id = py ''e1'', timestamp = 300000000, event_type = py ''window_change'',
                  active_window = None, process_name = None\<rparr>],
       screenshots = [], movement_logs = [], accepts_writes = True\<rparr> (py ''e1'') 0 1200000000 = (15, 0)"
proof -
  let ?e = "\<lparr>employee_id = py ''e1'', timestamp = 300000000, event_type = py ''window_change'',
                  active_window = None, process_name = None\<rparr>"
  let ?db = "\<lparr>employees = [py ''e1''], events = [?e],
       screenshots = [], movement_logs = [], accepts_writes = True\<rparr>"
  have rows: "select_events ?db (py ''e1'') 0 1200000000 = [?e]"
    by (simp add: select_events_def)
  have loop: "segment_loop [?e] (timestamp (hd [?e])) idle 0 0 = (300000000, active, 0, 0)"
    by (simp add: reclassify_def total_minutes_def py_def)
  have r: "round2 (0 + total_minutes 300000000 1200000000) = 15" "round2 0 = 0"
    by (simp_all add: round2_def round_half_even_def total_minutes_def)
  show ?thesis
    using tail_closing [OF rows _ loop] rows r by simp
qed

text \<open>
  Claim C1, as amended. For a range that holds at least one event of the subject, the
  unrounded active and idle minutes add up to the time from the first event in the range
  to the end of the range: the loop starts \<open>prev_ts\<close> at the first row, so the gap between
  the start of the range and the first event is counted in neither bucket. The two returned
  values are these sums rounded to two decimals each, hence their sum is within 0.01 of that
  duration.
\<close>

theorem active_plus_idle_from_first_event:
  assumes rows: "select_events db emp s en = r0 # rest"
    and ct: "close_tail en (segment_loop (r0 # rest) (timestamp r0) idle 0 0) = (a, i)"
  shows "a + i = total_minutes (timestamp r0) en \<and>
         sum_active_idle db emp s en = (round2 a, round2 i) \<and>
         \<bar>round2 a + round2 i - total_minutes (timestamp r0) en\<bar> \<le> 1 / 100"
proof -
  obtain p st a0 i0 where loop: "segment_loop (r0 # rest) (timestamp r0) idle 0 0 = (p, st, a0, i0)"
    using prod_cases4 by blast
  have srt: "sorted (map timestamp (r0 # rest))"
    using select_events_sorted [of db emp s en] rows by simp
  then have bnd: "\<forall>r \<in> set (r0 # rest). timestamp r0 \<le> timestamp r" by auto
  from segment_loop_sum [OF srt bnd loop]
  have p: "p = last (timestamp r0 # map timestamp (r0 # rest))"
    and sum0: "a0 + i0 = total_minutes (timestamp r0) p" by simp_all
  have "last (r0 # rest) \<in> set (select_events db emp s en)"
    using rows last_in_set [of "r0 # rest"] by simp
  then have "timestamp (last (r0 # rest)) \<le> en"
    unfolding select_events_set by simp
  moreover have "p = timestamp (last (r0 # rest))"
    using p by (simp add: last_map)
  ultimately have ple: "p \<le> en" by simp
  have sum1: "a + i = total_minutes (timestamp r0) en"
  proof (cases "p < en")
    case True
    have "max 0 (total_minutes p en) = total_minutes p en"
      using total_minutes_nonneg [of p en] True by simp
    then have "a + i = a0 + i0 + total_minutes p en"
      using ct loop True by (auto simp: close_tail_def Let_def split: if_splits)
    then show ?thesis using sum0 by (simp add: total_minutes_add)
  next
    case False
    then have "p = en" using ple by simp
    moreover have "a + i = a0 + i0"
      using ct loop False by (simp add: close_tail_def)
    ultimately show ?thesis using sum0 by simp
  qed
  have res: "sum_active_idle db emp s en = (round2 a, round2 i)"
    using rows ct by (simp add: sum_active_idle_def)
  have "\<bar>round2 a + round2 i - (a + i)\<bar> \<le> \<bar>round2 a - a\<bar> + \<bar>round2 i - i\<bar>"
    by linarith
  also have "\<dots> \<le> 1 / 200 + 1 / 200"
    using round2_close [of a] round2_close [of i] by linarith
  finally have "\<bar>round2 a + round2 i - total_minutes (timestamp r0) en\<bar> \<le> 1 / 100"
    using sum1 by simp
  then show ?thesis using sum1 res by simp
qed

text \<open>
  Five active minutes, then idle until the end of a twenty minute range that starts five
  minutes before the first event.
\<close>

theorem active_plus_idle_from_first_event_witness:
  "select_events \<lparr>employees = [py ''e1''],
       events = [\<lparr>employee_id = py ''e1'', timestamp = 300000000, event_type = py ''window_change'',
                  active_window = None, process_name = None\<rparr>,
                 \<lparr>employee_id = py ''e1'', timestamp = 600000000, event_type = py ''idle'',
                  active_window = None, process_name = None\<rparr>],
       screenshots = [], movement_logs = [], accepts_writes = True\<rparr> (py ''e1'') 0 1200000000 \<noteq> []
   \<and> sum_active_idle \<lparr>employees = [py ''e1''],
       events = [\<lparr>employee_id = py ''e1'', timestamp = 300000000, event_type = py ''window_change'',
                  active_window = None, process_name = None\<rparr>,
                 \<lparr>employee_id = py ''e1'', timestamp = 600000000, event_type = py ''idle'',
                  active_window = None, process_name = None\<rparr>],
       screenshots = [], movement_logs = [], accepts_writes = True\<rparr> (py ''e1'') 0 1200000000 = (5, 10)
   \<and> (5 :: rat) + 10 = total_minutes 300000000 1200000000"
proof -
  let ?e1 = "\<lparr>employee_id = py ''e1'', timestamp = 300000000, event_type = py ''window_change'',
                  active_window = None, process_name = None\<rparr>"
  let ?e2 = "\<lparr>employee_id = py ''e1'', timestamp = 600000000, event_type = py ''idle'',
                  active_window = None, process_name = None\<rparr>"
  let ?db = "\<lparr>employees = [py ''e1''], events = [?e1, ?e2],
       screenshots = [], movement_logs = [], accepts_writes = True\<rparr>"
  have rows: "select_events ?db (py ''e1'') 0 1200000000 = ?e1 # [?e2]"
    by (simp add: select_events_def)
  have ct: "close_tail 1200000000 (segment_loop (?e1 # [?e2]) (timestamp ?e1) idle 0 0) = (5, 10)"
    by (simp add: close_tail_def reclassify_def total_minutes_def py_def)
  have r: "round2 5 = 5" "round2 10 = 10"
    by (simp_all add: round2_def round_half_even_def)
  show ?thesis
    using active_plus_idle_from_first_event [OF rows ct] rows r by simp
qed

text \<open>
  Claim C1 as stated fails: with a single event five minutes after the start of a twenty
  minute range, the returned minutes add up to fifteen, not to the length of the range.
\<close>

theorem active_plus_idle_window_counterexample:
  "select_events \<lparr>employees = [py ''e1''],
       events = [\<lparr>employee_id = py ''e1'', timestamp = 300000000, event_type = py ''window_change'',
                  active_window = None, process_name = None\<rparr>],
       screenshots = [], movement_logs = [], accepts_writes = True\<rparr> (py ''e1'') 0 1200000000 \<noteq> []
   \<and> fst (sum_active_idle \<lparr>employees = [py ''e1''],
       events = [\<lparr>employee_id = py ''e1'', timestamp = 300000000, event_type = py ''window_change'',
                  active_window = None, process_name = None\<rparr>],
       screenshots = [], movement_logs = [], accepts_writes = True\<rparr> (py ''e1'') 0 1200000000)
     + snd (sum_active_idle \<lparr>employees = [py ''e1''],
       events = [\<lparr>employee_id = py ''e1'', timestamp = 300000000, event_type = py ''window_change'',
                  active_window = None, process_name = None\<rparr>],
       screenshots = [], movement_logs = [], accepts_writes = True\<rparr> (py ''e1'') 0 1200000000) = 15
   \<and> total_minutes 0 1200000000 = 20"
  by (simp add: sum_active_idle_def select_events_def close_tail_def reclassify_def py_def
      total_minutes_def round2_def round_half_even_def)

section \<open>Properties of the session reconstruction\<close>

text \<open>
  The loop invariant: the rows still to be read are ordered, every session already closed
  ends no later than the open start (if any) and than every remaining row, and the closed
  sessions are pairwise ordered.
\<close>

lemma session_loop_inv:
  assumes "sorted (map timestamp rows)"
    and "\<forall>x \<in> set acc. P x"
    and "sorted_wrt (\<lambda>a b. session_end a \<le> session_start b) acc"
    and "\<forall>x \<in> set acc. \<forall>r \<in> set rows. session_end x \<le> timestamp r"
    and "\<forall>cs. cur = Some cs \<longrightarrow>
           (\<forall>r \<in> set rows. cs \<le> timestamp r) \<and> (\<forall>x \<in> set acc. session_end x \<le> cs) \<and> Q cs"
    and "\<And>r. r \<in> set rows \<Longrightarrow> event_type r \<in> set [py ''active'', py ''window_change'']
           \<Longrightarrow> Q (timestamp r)"
    and "\<And>cs r. Q cs \<Longrightarrow> r \<in> set rows \<Longrightarrow> cs \<le> timestamp r
           \<Longrightarrow> event_type r \<in> set [py ''idle'', py ''idle_photo'', py ''non_work_detected'']
           \<Longrightarrow> P \<lparr>session_start = cs, session_end = timestamp r,
                   duration_seconds = int_seconds cs (timestamp r)\<rparr>"
  shows "(\<forall>x \<in> set (session_loop rows cur acc). P x) \<and>
         sorted_wrt (\<lambda>a b. session_end a \<le> session_start b) (session_loop rows cur acc)"
  using assms
proof (induction rows arbitrary: cur acc)
  case Nil
  then show ?case by simp
next
  case (Cons r rows)
  let ?ts = "timestamp r"
  let ?opens = "event_type r \<in> set [py ''active'', py ''window_change''] \<and> cur = None"
  let ?cur1 = "if ?opens then Some ?ts else cur"
  have srt: "sorted (map timestamp rows)" and ge: "\<forall>x \<in> set rows. ?ts \<le> timestamp x"
    using Cons.prems(1) by simp_all
  have acc_le: "\<forall>x \<in> set acc. session_end x \<le> ?ts"
    using Cons.prems(4) by simp
  have acc_rows: "\<forall>x \<in> set acc. \<forall>r \<in> set rows. session_end x \<le> timestamp r"
    using Cons.prems(4) by simp
  have openq: "\<And>r'. r' \<in> set rows \<Longrightarrow> event_type r' \<in> set [py ''active'', py ''window_change'']
           \<Longrightarrow> Q (timestamp r')"
    using Cons.prems(6) by simp
  have closep: "\<And>cs r'. Q cs \<Longrightarrow> r' \<in> set rows \<Longrightarrow> cs \<le> timestamp r'
           \<Longrightarrow> event_type r' \<in> set [py ''idle'', py ''idle_photo'', py ''non_work_detected'']
           \<Longrightarrow> P \<lparr>session_start = cs, session_end = timestamp r',
                   duration_seconds = int_seconds cs (timestamp r')\<rparr>"
    using Cons.prems(7) by simp
  have cur1: "\<forall>cs. ?cur1 = Some cs \<longrightarrow>
      cs \<le> ?ts \<and> (\<forall>x \<in> set acc. session_end x \<le> cs) \<and> Q cs"
  proof (cases ?opens)
    case True
    then have "Q ?ts" using Cons.prems(6) [of r] by simp
    then show ?thesis using True acc_le by simp
  next
    case False
    then have e: "?cur1 = cur" by (rule if_not_P)
    show ?thesis unfolding e using Cons.prems(5) by simp
  qed
  show ?case
  proof (cases ?cur1)
    case None
    have "session_loop (r # rows) cur acc = session_loop rows None acc"
      using None by (simp add: Let_def)
    moreover have "(\<forall>x \<in> set (session_loop rows None acc). P x) \<and>
         sorted_wrt (\<lambda>a b. session_end a \<le> session_start b) (session_loop rows None acc)"
    proof (rule Cons.IH [OF srt Cons.prems(2) Cons.prems(3) acc_rows _ openq closep])
      show "\<forall>c. None = Some c \<longrightarrow> (\<forall>r \<in> set rows. c \<le> timestamp r) \<and>
          (\<forall>x \<in> set acc. session_end x \<le> c) \<and> Q c" by simp
    qed
    ultimately show ?thesis by simp
  next
    case (Some cs)
    then have cs: "cs \<le> ?ts" "\<forall>x \<in> set acc. session_end x \<le> cs" "Q cs"
      using cur1 by simp_all
    show ?thesis
    proof (cases "event_type r \<in> set [py ''idle'', py ''idle_photo'', py ''non_work_detected'']")
      case True
      let ?new = "\<lparr>session_start = cs, session_end = ?ts, duration_seconds = int_seconds cs ?ts\<rparr>"
      have eq: "session_loop (r # rows) cur acc = session_loop rows None (acc @ [?new])"
        using Some True by (simp add: Let_def)
      have pnew: "P ?new" using Cons.prems(7) [of cs r] cs True by simp
      have a1: "\<forall>x \<in> set (acc @ [?new]). P x" using Cons.prems(2) pnew by simp
      have a2: "sorted_wrt (\<lambda>a b. session_end a \<le> session_start b) (acc @ [?new])"
        using Cons.prems(3) cs(2) by (simp add: sorted_wrt_append)
      have a3: "\<forall>x \<in> set (acc @ [?new]). \<forall>r \<in> set rows. session_end x \<le> timestamp r"
        using acc_rows ge by simp
      have a4: "\<forall>c. None = Some c \<longrightarrow> (\<forall>r \<in> set rows. c \<le> timestamp r) \<and>
          (\<forall>x \<in> set (acc @ [?new]). session_end x \<le> c) \<and> Q c" by simp
      show ?thesis
        using Cons.IH [OF srt a1 a2 a3 a4 openq closep] eq by simp
    next
      case False
      have eq: "session_loop (r # rows) cur acc = session_loop rows (Some cs) acc"
        using Some False by (simp add: Let_def)
      have a5: "\<forall>c. Some cs = Some c \<longrightarrow>
           (\<forall>r \<in> set rows. c \<le> timestamp r) \<and> (\<forall>x \<in> set acc. session_end x \<le> c) \<and> Q c"
        using cs ge by auto
      show ?thesis
        using Cons.IH [OF srt Cons.prems(2) Cons.prems(3) acc_rows a5 openq closep] eq by simp
    qed
  qed
qed

text \<open>
  Claim C10. Every session returned by \<^verbatim>\<open>get_continuous_sessions\<close> starts no later than
  it ends, its \<^verbatim>\<open>duration_seconds\<close> is the whole number of seconds between the two
  and is not negative, its start is the timestamp of an \<^verbatim>\<open>active\<close> or
  \<^verbatim>\<open>window_change\<close> event of the subject and its end the timestamp of an \<^verbatim>\<open>idle\<close>,
  \<^verbatim>\<open>idle_photo\<close> or \<^verbatim>\<open>non_work_detected\<close> event; each session ends before the next
  one starts, so no two sessions overlap.
\<close>

theorem sessions_well_formed:
  "(\<forall>x \<in> set (get_continuous_sessions db now emp day).
      session_start x \<le> session_end x
      \<and> duration_seconds x = (session_end x - session_start x) div 1000000
      \<and> 0 \<le> duration_seconds x
      \<and> (\<exists>r \<in> set (events db). employee_id r = emp
            \<and> event_type r \<in> set [py ''active'', py ''window_change'']
            \<and> timestamp r = session_start x)
      \<and> (\<exists>r \<in> set (events db). employee_id r = emp
            \<and> event_type r \<in> set [py ''idle'', py ''idle_photo'', py ''non_work_detected'']
            \<and> timestamp r = session_end x))
   \<and> sorted_wrt (\<lambda>a b. session_end a \<le> session_start b)
        (get_continuous_sessions db now emp day)"
proof -
  define d where "d = (case day of Some d \<Rightarrow> d | None \<Rightarrow> utc_date now)"
  define rows where "rows = select_events db emp (fst (day_bounds d)) (snd (day_bounds d))"
  define Q where "Q = (\<lambda>cs. \<exists>r \<in> set (events db). employee_id r = emp
            \<and> event_type r \<in> set [py ''active'', py ''window_change'']
            \<and> timestamp r = cs)"
  define P where "P = (\<lambda>x :: session. session_start x \<le> session_end x
      \<and> duration_seconds x = (session_end x - session_start x) div 1000000
      \<and> 0 \<le> duration_seconds x
      \<and> Q (session_start x)
      \<and> (\<exists>r \<in> set (events db). employee_id r = emp
            \<and> event_type r \<in> set [py ''idle'', py ''idle_photo'', py ''non_work_detected'']
            \<and> timestamp r = session_end x))"
  have gcs: "get_continuous_sessions db now emp day = session_loop rows None []"
    by (simp add: get_continuous_sessions_def rows_def d_def split_beta Let_def)
  have sub: "\<And>r. r \<in> set rows \<Longrightarrow> r \<in> set (events db) \<and> employee_id r = emp"
    unfolding rows_def select_events_set by simp
  have srt: "sorted (map timestamp rows)"
    unfolding rows_def by (rule select_events_sorted)
  have "(\<forall>x \<in> set (session_loop rows None []). P x) \<and>
         sorted_wrt (\<lambda>a b. session_end a \<le> session_start b) (session_loop rows None [])"
  proof (rule session_loop_inv [OF srt, where Q = Q])
    show "\<forall>x \<in> set []. P x" by simp
    show "sorted_wrt (\<lambda>a b. session_end a \<le> session_start b) []" by simp
    show "\<forall>x \<in> set []. \<forall>r \<in> set rows. session_end x \<le> timestamp r" by simp
    show "\<forall>cs. None = Some cs \<longrightarrow>
           (\<forall>r \<in> set rows. cs \<le> timestamp r) \<and> (\<forall>x \<in> set []. session_end x \<le> cs) \<and> Q cs"
      by simp
  next
    fix r
    assume "r \<in> set rows" "event_type r \<in> set [py ''active'', py ''window_change'']"
    then show "Q (timestamp r)" unfolding Q_def using sub [of r] by blast
  next
    fix cs r
    assume a: "Q cs" "r \<in> set rows" "cs \<le> timestamp r"
      "event_type r \<in> set [py ''idle'', py ''idle_photo'', py ''non_work_detected'']"
    have "0 \<le> (timestamp r - cs) div 1000000" using a(3) by simp
    moreover have "\<exists>r' \<in> set (events db). employee_id r' = emp
            \<and> event_type r' \<in> set [py ''idle'', py ''idle_photo'', py ''non_work_detected'']
            \<and> timestamp r' = timestamp r"
      using a(2,4) sub [of r] by blast
    ultimately show "P \<lparr>session_start = cs, session_end = timestamp r,
                   duration_seconds = int_seconds cs (timestamp r)\<rparr>"
      unfolding P_def using a(1,3) by (simp add: int_seconds_def)
  qed
  then show ?thesis unfolding gcs P_def Q_def .
qed

text \<open>
  Two active runs that meet at one instant: the second opens on an event logged with the
  timestamp that closed the first.
\<close>

theorem sessions_well_formed_witness:
  "get_continuous_sessions \<lparr>employees = [py ''e1''],
       events = [\<lparr>employee_id = py ''e1'', timestamp = 300000000, event_type = py ''window_change'',
                  active_window = None, process_name = None\<rparr>,
                 \<lparr>employee_id = py ''e1'', timestamp = 600500000, event_type = py ''idle'',
                  active_window = None, process_name = None\<rparr>,
                 \<lparr>employee_id = py ''e1'', timestamp = 600500000, event_type = py ''active'',
                  active_window = None, process_name = None\<rparr>,
                 \<lparr>employee_id = py ''e1'', timestamp = 900000000, event_type = py ''idle_photo'',
                  active_window = None, process_name = None\<rparr>],
       screenshots = [], movement_logs = [], accepts_writes = True\<rparr> 1000000000 (py ''e1'') None
     = [\<lparr>session_start = 300000000, session_end = 600500000, duration_seconds = 300\<rparr>,
        \<lparr>session_start = 600500000, session_end = 900000000, duration_seconds = 299\<rparr>]
   \<and> (300000000 :: int) \<le> 600500000 \<and> (300 :: int) = (600500000 - 300000000) div 1000000"
  using sessions_well_formed [of "\<lparr>employees = [py ''e1''],
       events = [\<lparr>employee_id = py ''e1'', timestamp = 300000000, event_type = py ''window_change'',
                  active_window = None, process_name = None\<rparr>,
                 \<lparr>employee_id = py ''e1'', timestamp = 600500000, event_type = py ''idle'',
                  active_window = None, process_name = None\<rparr>,
                 \<lparr>employee_id = py ''e1'', timestamp = 600500000, event_type = py ''active'',
                  active_window = None, process_name = None\<rparr>,
                 \<lparr>employee_id = py ''e1'', timestamp = 900000000, event_type = py ''idle_photo'',
                  active_window = None, process_name = None\<rparr>],
       screenshots = [], movement_logs = [], accepts_writes = True\<rparr>" 1000000000 "py ''e1''" None]
  by (simp add: get_continuous_sessions_def select_events_def day_bounds_def utc_date_def
      usec_per_day_def int_seconds_def py_def)

section \<open>Properties of the ingestion buffer\<close>

lemma add_events_below_threshold:
  "length (movement_events det) + length evs < 50 \<Longrightarrow>
   add_events det db evs = Inr (det\<lparr>movement_events := movement_events det @ evs\<rparr>, db)"
proof (induction evs arbitrary: det)
  case Nil
  then show ?case by simp
next
  case (Cons e evs)
  let ?det1 = "det\<lparr>movement_events := movement_events det @ [e]\<rparr>"
  have "add_event det db e = Inr (?det1, db)"
    using Cons.prems by (simp add: add_event_def Let_def)
  moreover have "add_events ?det1 db evs =
      Inr (?det1\<lparr>movement_events := movement_events ?det1 @ evs\<rparr>, db)"
    using Cons.prems by (intro Cons.IH) simp
  ultimately show ?case by simp
qed

lemma add_events_snoc:
  "add_events det db (evs @ [e]) =
     (case add_events det db evs of
        Inl x \<Rightarrow> Inl x
      | Inr (det', db') \<Rightarrow> add_event det' db' e)"
proof (induction evs arbitrary: det db)
  case Nil
  then show ?case by (simp split: sum.splits prod.splits)
next
  case (Cons a evs)
  then show ?case by (simp split: sum.splits prod.splits)
qed

text \<open>
  Claim C3. Records are appended one at a time, with no flush in between, to a batch that
  is below the threshold, and the store accepts writes. When the append that brings the
  batch to exactly 50 records returns, the batch is empty and the movement log has grown by
  these 50 rows, in order.
\<close>

theorem auto_flush_at_fifty:
  assumes "length (movement_events det) + length evs = 50" and "evs \<noteq> []"
    and "accepts_writes db"
  shows "add_events det db evs =
           Inr (det\<lparr>movement_events := []\<rparr>,
                db\<lparr>movement_logs := movement_logs db @
                  map (\<lambda>(ts, event_type, detail, distance).
                         (detector_employee_id det, ts, event_type, detail, distance))
                    (movement_events det @ evs)\<rparr>)
         \<and> length (movement_logs db @
                  map (\<lambda>(ts, event_type, detail, distance).
                         (detector_employee_id det, ts, event_type, detail, distance))
                    (movement_events det @ evs)) = length (movement_logs db) + 50"
proof -
  obtain front e where evs: "evs = front @ [e]"
    using assms(2) by (metis rev_exhaust)
  let ?det1 = "det\<lparr>movement_events := movement_events det @ front\<rparr>"
  have below: "length (movement_events det) + length front < 50"
    using assms(1) evs by simp
  have first: "add_events det db front = Inr (?det1, db)"
    by (rule add_events_below_threshold [OF below])
  have full: "length (movement_events ?det1 @ [e]) = 50"
    using assms(1) evs by simp
  then have ne: "movement_events ?det1 @ [e] \<noteq> []" by simp
  have "add_event ?det1 db e =
      Inr (det\<lparr>movement_events := []\<rparr>,
           db\<lparr>movement_logs := movement_logs db @
             map (\<lambda>(ts, event_type, detail, distance).
                    (detector_employee_id det, ts, event_type, detail, distance))
               (movement_events det @ evs)\<rparr>)"
    using full assms(3) evs
    by (simp add: add_event_def flush_batch_def log_movement_batch_def Let_def)
  then show ?thesis
    using first assms(1) by (simp add: evs add_events_snoc)
qed

text \<open>Fifty clicks appended to an empty batch.\<close>

theorem auto_flush_at_fifty_witness:
  "add_events \<lparr>movement_events = [], detector_employee_id = Some (py ''e1'')\<rparr>
     \<lparr>employees = [py ''e1''], events = [], screenshots = [], movement_logs = [], accepts_writes = True\<rparr>
     (replicate 50 (py ''2024-01-01T10:00:00'', py ''mouse_click'', py ''left'', 0))
   = Inr (\<lparr>movement_events = [], detector_employee_id = Some (py ''e1'')\<rparr>,
          \<lparr>employees = [py ''e1''], events = [],
            screenshots = [], movement_logs = replicate 50
              (Some (py ''e1''), py ''2024-01-01T10:00:00'', py ''mouse_click'', py ''left'', 0),
            accepts_writes = True\<rparr>)"
  using auto_flush_at_fifty [of
     "\<lparr>movement_events = [], detector_employee_id = Some (py ''e1'')\<rparr>"
     "replicate 50 (py ''2024-01-01T10:00:00'', py ''mouse_click'', py ''left'', 0)"
     "\<lparr>employees = [py ''e1''], events = [], screenshots = [], movement_logs = [], accepts_writes = True\<rparr>"]
  by simp

text \<open>
  Claim C8. When the store rejects the write, \<^verbatim>\<open>_flush_batch\<close> raises to its caller
  before \<^verbatim>\<open>movement_events.clear()\<close> is reached: the batch and the movement log are
  unchanged, and a later flush against a store that accepts writes persists exactly these
  records.
\<close>

theorem flush_failure_keeps_batch:
  assumes "movement_events det \<noteq> []" and "\<not> accepts_writes db"
  shows "flush_batch det db = Inl (StoreWriteFailure, det, db)
       \<and> flush_batch det (db\<lparr>accepts_writes := True\<rparr>) =
           Inr (det\<lparr>movement_events := []\<rparr>,
                db\<lparr>accepts_writes := True,
                   movement_logs := movement_logs db @
                     map (\<lambda>(ts, event_type, detail, distance).
                            (detector_employee_id det, ts, event_type, detail, distance))
                       (movement_events det)\<rparr>)"
  using assms by (simp add: flush_batch_def log_movement_batch_def)

text \<open>One buffered key press and a store that rejects writes.\<close>

theorem flush_failure_keeps_batch_witness:
  "flush_batch
     \<lparr>movement_events = [(py ''2024-01-01T10:00:00'', py ''key_press'', py ''Key.enter'', 0)],
        detector_employee_id = Some (py ''e1'')\<rparr>
     \<lparr>employees = [py ''e1''], events = [], screenshots = [], movement_logs = [], accepts_writes = False\<rparr>
   = Inl (StoreWriteFailure,
       \<lparr>movement_events = [(py ''2024-01-01T10:00:00'', py ''key_press'', py ''Key.enter'', 0)],
          detector_employee_id = Some (py ''e1'')\<rparr>,
       \<lparr>employees = [py ''e1''], events = [], screenshots = [], movement_logs = [], accepts_writes = False\<rparr>)"
  using flush_failure_keeps_batch [of
     "\<lparr>movement_events = [(py ''2024-01-01T10:00:00'', py ''key_press'', py ''Key.enter'', 0)],
        detector_employee_id = Some (py ''e1'')\<rparr>"
     "\<lparr>employees = [py ''e1''], events = [], screenshots = [], movement_logs = [], accepts_writes = False\<rparr>"]
  by simp

section \<open>Properties of the application identity normalizer\<close>

text \<open>
  Concrete strings are evaluated one assignment of \<^verbatim>\<open>_normalize\<close> at a time.
\<close>

lemma py_inject: "py a = py b \<longleftrightarrow> a = b"
  unfolding py_def by (rule inj_map_eq_map) (rule inj_of_char)

lemma py_Nil: "py s = [] \<longleftrightarrow> s = []"
  by (simp add: py_def)

lemma py_length: "length (py s) = length s"
  by (simp add: py_def)

lemma normalized_form_steps:
  assumes "strip name = n1" and "cut_separators n1 = n2"
    and "strip (filter (\<lambda>c. c \<noteq> 8203) n2) = n3" and "lower n3 = n4"
    and "(if endswith n4 (py ''.exe'') then take (length n4 - 4) n4 else n4) = n5"
    and "last (split n5 [92]) = n6"
  shows "normalized_form name = last (split n6 [47])"
  using assms by (simp add: normalized_form_def)


lemma cut_separators_absent:
  assumes "\<not> contains (py '' - '') n" and "\<not> contains (py '' | '') n"
    and "\<not> contains [32, 8212, 32] n" and "\<not> contains (py '' :: '') n"
  shows "cut_separators n = n"
  using assms by (simp add: cut_separators_def separators_def cut_separator_def)

lemma normalized_form_chrome_exe: "normalized_form (py ''chrome.exe'') = py ''chrome''"
proof -
  have "normalized_form (py ''chrome.exe'') = last (split (py ''chrome'') [47])"
  proof (rule normalized_form_steps)
    show "strip (py ''chrome.exe'') = py ''chrome.exe''"
      by (simp add: strip_def isspace_def py_def)
    show "cut_separators (py ''chrome.exe'') = py ''chrome.exe''"
      by (rule cut_separators_absent) (simp_all add: py_def)
    show "strip (filter (\<lambda>c. c \<noteq> 8203) (py ''chrome.exe'')) = py ''chrome.exe''"
      by (simp add: strip_def isspace_def py_def)
    show "lower (py ''chrome.exe'') = py ''chrome.exe''"
      by (simp add: lower_def lower_char_def py_def)
    show "(if endswith (py ''chrome.exe'') (py ''.exe'')
           then take (length (py ''chrome.exe'') - 4) (py ''chrome.exe'')
           else py ''chrome.exe'') = py ''chrome''"
      by (simp add: endswith_def py_def)
    show "last (split (py ''chrome'') [92]) = py ''chrome''"
      by (simp add: split_def py_def)
  qed
  then show ?thesis by (simp add: split_def py_def)
qed

lemma normalize_first_alias:
  assumes "name \<noteq> []" and "contains (py ''chrome'') (normalized_form name)"
  shows "normalize_name (Some name) = Inr (py ''chrome'')"
  using assms by (simp add: normalize_name_def aliases_def)

lemma normalize_chrome_exe: "normalize_name (Some (py ''chrome.exe'')) = Inr (py ''chrome'')"
  by (rule normalize_first_alias) (simp_all add: normalized_form_chrome_exe, simp_all add: py_def)

lemma display_from_chrome_exe: "display_from (Some (py ''chrome.exe'')) = py ''chrome.exe''"
proof -
  have s: "strip (py ''chrome.exe'') = py ''chrome.exe''"
    by (simp add: strip_def isspace_def py_def)
  have f: "find (\<lambda>sep. contains sep (py ''chrome.exe'')) separators = None"
    by (simp add: separators_def py_def)
  show ?thesis
    by (simp add: display_from_def py_Nil py_length s f)
qed

lemma normalized_form_empty: "normalized_form [] = []"
proof -
  have "normalized_form [] = last (split [] [47])"
  proof (rule normalized_form_steps)
    show "strip [] = []" by (simp add: strip_def)
    show "cut_separators [] = []" by (rule cut_separators_absent) (simp_all add: py_def)
    show "strip (filter (\<lambda>c. c \<noteq> 8203) []) = []" by (simp add: strip_def)
    show "lower [] = []" by (simp add: lower_def)
    show "(if endswith [] (py ''.exe'') then take (length [] - 4) [] else []) = ([] :: pystr)"
      by simp
    show "last (split [] [92]) = []" by (simp add: split_def)
  qed
  then show ?thesis by (simp add: split_def)
qed

lemma normalize_no_alias:
  assumes "name \<noteq> []" and "\<forall>(k, v) \<in> set aliases. \<not> contains k (normalized_form name)"
  shows "normalize_name (Some name) =
           (case split_whitespace (normalized_form name) of
              [] \<Rightarrow> Inl IndexError
            | base # other \<Rightarrow> Inr base)"
proof -
  have "find (\<lambda>(k, v). contains k (normalized_form name)) aliases = None"
    using assms(2) by (auto simp: find_None_iff)
  then show ?thesis using assms(1) by (simp add: normalize_name_def)
qed

lemma normalized_form_my_tool: "normalized_form (py ''My Tool'') = py ''my tool''"
proof -
  have "normalized_form (py ''My Tool'') = last (split (py ''my tool'') [47])"
  proof (rule normalized_form_steps)
    show "strip (py ''My Tool'') = py ''My Tool''"
      by (simp add: strip_def isspace_def py_def)
    show "cut_separators (py ''My Tool'') = py ''My Tool''"
      by (rule cut_separators_absent) (simp_all add: py_def)
    show "strip (filter (\<lambda>c. c \<noteq> 8203) (py ''My Tool'')) = py ''My Tool''"
      by (simp add: strip_def isspace_def py_def)
    show "lower (py ''My Tool'') = py ''my tool''"
      by (simp add: lower_def lower_char_def py_def)
    show "(if endswith (py ''my tool'') (py ''.exe'')
           then take (length (py ''my tool'') - 4) (py ''my tool'')
           else py ''my tool'') = py ''my tool''"
      by (simp add: endswith_def py_def)
    show "last (split (py ''my tool'') [92]) = py ''my tool''"
      by (simp add: split_def py_def)
  qed
  then show ?thesis by (simp add: split_def py_def)
qed


lemmas usage_eval =
  get_apps_usage_def close_usage_tail_def select_app_rows_def select_events_def day_bounds_def
  usec_per_day_def
  py_or_def py_Nil py_inject credit_def usage_out_def sorted_by_value_desc_def dict_get_def
  total_minutes_def normalize_chrome_exe display_from_chrome_exe round2_def round_half_even_def

text \<open>
  What \<^verbatim>\<open>_normalize\<close> returns. An event whose only identification is the window title
  \<^verbatim>\<open>chrome.exe\<close> and an event with the title \<^verbatim>\<open>Google Chrome - New Tab\<close> and the
  process \<^verbatim>\<open>chrome.exe\<close> are accounted under the same key \<^verbatim>\<open>chrome\<close> (the query hands
  the process name to \<^verbatim>\<open>_normalize\<close> when there is one, the title otherwise). Every name
  whose normalized form contains \<^verbatim>\<open>chrome\<close> has the key \<^verbatim>\<open>chrome\<close>, the first entry
  of the alias table. A non-empty name whose normalized form contains no alias gives the
  first token of \<^verbatim>\<open>n.split()\<close> when there is one, and \<^verbatim>\<open>IndexError\<close> otherwise.
\<close>

theorem normalize_chrome_and_first_token:
  "get_apps_usage \<lparr>employees = [py ''e1''],
       events = [\<lparr>employee_id = py ''e1'', timestamp = 0, event_type = py ''active'',
                  active_window = Some (py ''chrome.exe''), process_name = None\<rparr>],
       screenshots = [], movement_logs = [], accepts_writes = True\<rparr> 600000000 (py ''e1'') (Some 0)
     = Inr [\<lparr>app = py ''chrome.exe'', key = py ''chrome'', minutes = 10\<rparr>]
   \<and> get_apps_usage \<lparr>employees = [py ''e1''],
       events = [\<lparr>employee_id = py ''e1'', timestamp = 0, event_type = py ''active'',
                  active_window = Some (py ''Google Chrome - New Tab''),
                  process_name = Some (py ''chrome.exe'')\<rparr>],
       screenshots = [], movement_logs = [], accepts_writes = True\<rparr> 600000000 (py ''e1'') (Some 0)
     = Inr [\<lparr>app = py ''chrome.exe'', key = py ''chrome'', minutes = 10\<rparr>]
   \<and> (contains (py ''chrome'') (normalized_form name)
        \<longrightarrow> normalize_name (Some name) = Inr (py ''chrome''))
   \<and> (name \<noteq> [] \<and> (\<forall>(k, v) \<in> set aliases. \<not> contains k (normalized_form name))
        \<longrightarrow> normalize_name (Some name) =
              (case split_whitespace (normalized_form name) of
                 [] \<Rightarrow> Inl IndexError
               | base # other \<Rightarrow> Inr base))"
proof -
  have a1: "get_apps_usage \<lparr>employees = [py ''e1''],
       events = [\<lparr>employee_id = py ''e1'', timestamp = 0, event_type = py ''active'',
                  active_window = Some (py ''chrome.exe''), process_name = None\<rparr>],
       screenshots = [], movement_logs = [], accepts_writes = True\<rparr> 600000000 (py ''e1'') (Some 0)
     = Inr [\<lparr>app = py ''chrome.exe'', key = py ''chrome'', minutes = 10\<rparr>]"
    by (simp add: usage_eval)
  have a2: "get_apps_usage \<lparr>employees = [py ''e1''],
       events = [\<lparr>employee_id = py ''e1'', timestamp = 0, event_type = py ''active'',
                  active_window = Some (py ''Google Chrome - New Tab''),
                  process_name = Some (py ''chrome.exe'')\<rparr>],
       screenshots = [], movement_logs = [], accepts_writes = True\<rparr> 600000000 (py ''e1'') (Some 0)
     = Inr [\<lparr>app = py ''chrome.exe'', key = py ''chrome'', minutes = 10\<rparr>]"
    by (simp add: usage_eval)
  have b: "contains (py ''chrome'') (normalized_form name)
        \<longrightarrow> normalize_name (Some name) = Inr (py ''chrome'')"
  proof
    assume c: "contains (py ''chrome'') (normalized_form name)"
    have "name \<noteq> []"
    proof
      assume "name = []"
      then have "contains (py ''chrome'') []" using c normalized_form_empty by simp
      then show False by (simp add: py_def)
    qed
    then show "normalize_name (Some name) = Inr (py ''chrome'')"
      using c by (rule normalize_first_alias)
  qed
  show ?thesis using a1 a2 b normalize_no_alias [of name] by blast
qed

text \<open>The two clauses on all names, at \<^verbatim>\<open>chrome.exe\<close> and at \<^verbatim>\<open>My Tool\<close>.\<close>

theorem normalize_chrome_and_first_token_witness:
  "contains (py ''chrome'') (normalized_form (py ''chrome.exe''))
   \<and> normalize_name (Some (py ''chrome.exe'')) = Inr (py ''chrome'')
   \<and> py ''My Tool'' \<noteq> []
   \<and> normalized_form (py ''My Tool'') = py ''my tool''
   \<and> normalize_name (Some (py ''My Tool'')) = Inr (py ''my'')"
proof -
  have c: "contains (py ''chrome'') (normalized_form (py ''chrome.exe''))"
    by (simp add: normalized_form_chrome_exe) (simp add: py_def)
  have n: "py ''My Tool'' \<noteq> []" by (simp add: py_Nil)
  have na: "\<forall>(k, v) \<in> set aliases. \<not> contains k (normalized_form (py ''My Tool''))"
    by (simp add: normalized_form_my_tool aliases_def) (simp add: py_def)
  have t: "split_whitespace (py ''my tool'') = [py ''my'', py ''tool'']"
    by (simp add: split_whitespace_def isspace_def py_def)
  show ?thesis
    using normalize_chrome_and_first_token [of "py ''chrome.exe''"]
      normalize_chrome_and_first_token [of "py ''My Tool''"] c n na
    by (simp add: normalized_form_my_tool t)
qed




section \<open>Properties of the usage aggregator\<close>

text \<open>
  Claim C4 as stated fails: the same store, queried ten and twenty minutes after an
  \<^verbatim>\<open>active\<close> event of the same day, gives ten and twenty minutes.
\<close>

theorem apps_usage_clock_counterexample:
  "get_apps_usage \<lparr>employees = [py ''e1''],
       events = [\<lparr>employee_id = py ''e1'', timestamp = 0, event_type = py ''active'',
                  active_window = Some (py ''Google Chrome - New Tab''),
                  process_name = Some (py ''chrome.exe'')\<rparr>],
       screenshots = [], movement_logs = [], accepts_writes = True\<rparr> 600000000 (py ''e1'') (Some 0)
     = Inr [\<lparr>app = py ''chrome.exe'', key = py ''chrome'', minutes = 10\<rparr>]
   \<and> get_apps_usage \<lparr>employees = [py ''e1''],
       events = [\<lparr>employee_id = py ''e1'', timestamp = 0, event_type = py ''active'',
                  active_window = Some (py ''Google Chrome - New Tab''),
                  process_name = Some (py ''chrome.exe'')\<rparr>],
       screenshots = [], movement_logs = [], accepts_writes = True\<rparr> 1200000000 (py ''e1'') (Some 0)
     = Inr [\<lparr>app = py ''chrome.exe'', key = py ''chrome'', minutes = 20\<rparr>]"
  by (simp add: usage_eval)

section \<open>Properties of the company rollup\<close>

text \<open>
  Assigning to a key of a dictionary, and the decimal rounding, which is monotone.
\<close>

lemma map_of_dict_set: "map_of (dict_set d k v) = (map_of d)(k \<mapsto> v)"
  by (induction d k v rule: dict_set.induct) (auto simp: fun_eq_iff)

lemma keys_dict_set: "fst ` set (dict_set d k v) = insert k (fst ` set d)"
  by (induction d k v rule: dict_set.induct) auto

lemma distinct_dict_set: "distinct (map fst d) \<Longrightarrow> distinct (map fst (dict_set d k v))"
proof (induction d k v rule: dict_set.induct)
  case (1 k v)
  then show ?case by simp
next
  case (2 k' v' d k v)
  then show ?case using keys_dict_set [of d k v] by (auto simp: image_iff)
qed

lemma dict_get_dict_set:
  "dict_get (dict_set d k v) k' dflt = (if k' = k then v else dict_get d k' dflt)"
  by (simp add: dict_get_def map_of_dict_set)















section \<open>How the usage aggregator depends on the clock\<close>

text \<open>
  The loop of \<^verbatim>\<open>get_apps_usage\<close> ends in the state that the event types of the rows
  determine, at the timestamp of the last row, with one entry per key and no negative
  total.
\<close>

lemma set_dict_set: "set (dict_set d k v) \<subseteq> insert (k, v) (set d)"
  by (induction d k v rule: dict_set.induct) auto

lemma minutes_credit:
  "minutes_by_key (credit st delta) =
     dict_set (minutes_by_key st) (prev_key st)
       (dict_get (minutes_by_key st) (prev_key st) 0 + max 0 delta)"
  by (simp add: credit_def)

lemma credit_fields:
  "prev_ts (credit st delta) = prev_ts st" "prev_state (credit st delta) = prev_state st"
  "prev_key (credit st delta) = prev_key st" "prev_raw (credit st delta) = prev_raw st"
  by (simp_all add: credit_def)

lemma dict_get_nonneg:
  "\<forall>kv \<in> set m. 0 \<le> snd kv \<Longrightarrow> (0::rat) \<le> dict_get m k 0"
proof (cases "map_of m k")
  case None
  then show ?thesis by (simp add: dict_get_def)
next
  case (Some v)
  then have "(k, v) \<in> set m" by (rule map_of_SomeD)
  moreover assume "\<forall>kv \<in> set m. 0 \<le> snd kv"
  ultimately have "0 \<le> v" by force
  then show ?thesis using Some by (simp add: dict_get_def)
qed

lemma credit_keeps_invariant:
  assumes "distinct (map fst (minutes_by_key st))" and "\<forall>kv \<in> set (minutes_by_key st). 0 \<le> snd kv"
  shows "distinct (map fst (minutes_by_key (credit st delta)))
       \<and> (\<forall>kv \<in> set (minutes_by_key (credit st delta)). 0 \<le> snd kv)"
proof -
  have "0 \<le> dict_get (minutes_by_key st) (prev_key st) 0 + max 0 delta"
    using dict_get_nonneg [OF assms(2), of "prev_key st"] by simp
  then have "\<forall>kv \<in> set (minutes_by_key (credit st delta)). 0 \<le> snd kv"
    unfolding minutes_credit
    using assms(2) set_dict_set [of "minutes_by_key st" "prev_key st"
        "dict_get (minutes_by_key st) (prev_key st) 0 + max 0 delta"]
    by auto
  then show ?thesis
    using assms(1) by (simp add: minutes_credit distinct_dict_set)
qed

lemma usage_loop_final:
  assumes "usage_loop rows st = Inr st'"
    and "distinct (map fst (minutes_by_key st))" and "\<forall>kv \<in> set (minutes_by_key st). 0 \<le> snd kv"
  shows "prev_state st' = fold (\<lambda>r. reclassify (fst (snd r))) rows (prev_state st)
       \<and> prev_ts st' = last (prev_ts st # map fst rows)
       \<and> distinct (map fst (minutes_by_key st'))
       \<and> (\<forall>kv \<in> set (minutes_by_key st'). 0 \<le> snd kv)"
  using assms
proof (induction rows arbitrary: st)
  case Nil
  then show ?case by simp
next
  case (Cons r rows)
  obtain ts ev raw where r: "r = (ts, ev, raw)" by (cases r) auto
  define st1 where "st1 = (if prev_state st = active
      then credit st (total_minutes (prev_ts st) ts) else st)\<lparr>prev_ts := ts\<rparr>"
  have inv1: "distinct (map fst (minutes_by_key st1))
      \<and> (\<forall>kv \<in> set (minutes_by_key st1). 0 \<le> snd kv)"
    using credit_keeps_invariant [OF Cons.prems(2,3)] Cons.prems(2,3)
    by (simp add: st1_def)
  have ps1: "prev_state st1 = prev_state st" "prev_ts st1 = ts"
    by (simp_all add: st1_def credit_fields)
  consider (act) "ev \<in> set [py ''active'', py ''window_change'', py ''non_work_detected'']"
    | (idl) "ev \<notin> set [py ''active'', py ''window_change'', py ''non_work_detected'']"
        "ev \<in> set [py ''idle'', py ''idle_photo'']"
    | (oth) "ev \<notin> set [py ''active'', py ''window_change'', py ''non_work_detected'']"
        "ev \<notin> set [py ''idle'', py ''idle_photo'']"
    by blast
  then show ?case
  proof cases
    case act
    obtain k where k: "normalize_name (Some (py_or raw (prev_raw st1))) = Inr k"
      and rec: "usage_loop rows (st1\<lparr>prev_state := active, prev_raw := py_or raw (prev_raw st1),
          prev_key := k\<rparr>) = Inr st'"
      using Cons.prems(1) act unfolding r
      by (simp add: Let_def st1_def [symmetric] split: sum.splits)
    have "reclassify ev (prev_state st) = active" using act by (simp add: reclassify_def)
    then show ?thesis
      using Cons.IH [OF rec] inv1 ps1 by (simp add: r)
  next
    case idl
    have rec: "usage_loop rows (st1\<lparr>prev_state := idle\<rparr>) = Inr st'"
      using Cons.prems(1) idl unfolding r
      by (simp add: Let_def st1_def [symmetric])
    have "reclassify ev (prev_state st) = idle" using idl by (simp add: reclassify_def)
    then show ?thesis
      using Cons.IH [OF rec] inv1 ps1 by (simp add: r)
  next
    case oth
    have rec: "usage_loop rows st1 = Inr st'"
      using Cons.prems(1) oth unfolding r
      by (simp add: Let_def st1_def [symmetric])
    have "reclassify ev (prev_state st) = prev_state st" using oth by (simp add: reclassify_def)
    then show ?thesis
      using Cons.IH [OF rec] inv1 ps1 by (simp add: r)
  qed
qed

lemma round2_strict: "x + 1 / 100 < y \<Longrightarrow> round2 x < round2 y"
proof -
  assume "x + 1 / 100 < y"
  moreover have "round2 x \<le> x + 1 / 200" using round2_close [of x] by linarith
  moreover have "y - 1 / 200 \<le> round2 y" using round2_close [of y] by linarith
  ultimately show ?thesis by linarith
qed

lemma set_usage_out:
  "set (usage_out totals names) =
     (\<lambda>(k, v). \<lparr>app = dict_get names k (title k), key = k, minutes = round2 v\<rparr>)
       ` {(k, v). (k, v) \<in> set totals \<and> 0 < v}"
  by (auto simp: usage_out_def sorted_by_value_desc_def)

lemma minutes_usage_out:
  assumes "distinct (map fst totals)" and "e \<in> set (usage_out totals names)"
  shows "minutes e = round2 (dict_get totals (key e) 0)"
proof -
  obtain k v where kv: "(k, v) \<in> set totals"
    and e: "e = \<lparr>app = dict_get names k (title k), key = k, minutes = round2 v\<rparr>"
    using assms(2) unfolding set_usage_out by auto
  have "map_of totals k = Some v" using kv assms(1) by simp
  then show ?thesis by (simp add: e dict_get_def)
qed

lemma get_apps_usage_unfold:
  "get_apps_usage db now emp (Some d) =
     (case select_app_rows db emp (fst (day_bounds d)) (snd (day_bounds d)) of
        [] \<Rightarrow> Inr []
      | r0 # rest \<Rightarrow>
          (case normalize_name (Some (py_or (snd (snd r0)) (py ''Unknown''))) of
             Inl e \<Rightarrow> Inl e
           | Inr k \<Rightarrow>
               (case usage_loop (r0 # rest)
                       \<lparr>prev_ts = fst r0, prev_raw = py_or (snd (snd r0)) (py ''Unknown''),
                         prev_key = k, prev_state = idle,
                         minutes_by_key = [], name_by_key = []\<rparr> of
                  Inl e \<Rightarrow> Inl e
                | Inr st \<Rightarrow>
                    Inr (usage_out
                          (minutes_by_key (close_usage_tail st (min now (snd (day_bounds d)))))
                          (name_by_key (close_usage_tail st (min now (snd (day_bounds d)))))))))"
  unfolding get_apps_usage_def Let_def split_beta option.case
  by (simp split: list.splits prod.splits sum.splits)

lemma select_app_rows_bounds:
  "r \<in> set (select_app_rows db emp s en) \<Longrightarrow> s \<le> fst r \<and> fst r \<le> en"
  by (auto simp: select_app_rows_def select_events_set)

text \<open>
  Claim C4, as amended. For a fixed store, subject and day, let \<open>rows\<close> be the rows of
  the query. Two calls return the same result when the earlier of the clock reading and
  the end of the day is the same instant for both, and, whatever the clock reads, when the
  last state that the rows classify is idle (in particular when there are no rows). When
  that state is active the result is not a function of the store alone: the open segment
  is credited up to the earlier of the clock reading and the end of the day, so a call made
  after the last event and a second call whose such instant is more than 0.6 seconds (0.01
  minute) later never return the same list.
\<close>

theorem apps_usage_clock_dependence:
  assumes rows: "rows = select_app_rows db emp (fst (day_bounds d)) (snd (day_bounds d))"
  shows "(min now1 (snd (day_bounds d)) = min now2 (snd (day_bounds d))
            \<longrightarrow> get_apps_usage db now1 emp (Some d) = get_apps_usage db now2 emp (Some d))
       \<and> (fold (\<lambda>r. reclassify (fst (snd r))) rows idle = idle
            \<longrightarrow> get_apps_usage db now1 emp (Some d) = get_apps_usage db now2 emp (Some d))
       \<and> (fold (\<lambda>r. reclassify (fst (snd r))) rows idle = active
            \<and> fst (last rows) \<le> now1
            \<and> min now1 (snd (day_bounds d)) + 600000 < min now2 (snd (day_bounds d))
            \<and> get_apps_usage db now1 emp (Some d) = Inr out1
            \<longrightarrow> get_apps_usage db now2 emp (Some d) \<noteq> Inr out1)"
proof (intro conjI impI)
  assume same: "min now1 (snd (day_bounds d)) = min now2 (snd (day_bounds d))"
  show "get_apps_usage db now1 emp (Some d) = get_apps_usage db now2 emp (Some d)"
    unfolding get_apps_usage_unfold same by (rule refl)
next
  assume ends_idle: "fold (\<lambda>r. reclassify (fst (snd r))) rows idle = idle"
  show "get_apps_usage db now1 emp (Some d) = get_apps_usage db now2 emp (Some d)"
  proof (cases rows)
    case Nil
    then show ?thesis using rows by (simp add: get_apps_usage_unfold)
  next
    case (Cons r0 rest)
    then have sel: "select_app_rows db emp (fst (day_bounds d)) (snd (day_bounds d)) = r0 # rest"
      using rows by simp
    show ?thesis
    proof (cases "normalize_name (Some (py_or (snd (snd r0)) (py ''Unknown'')))")
      case (Inl e)
      then show ?thesis by (simp add: get_apps_usage_unfold sel)
    next
      case (Inr k)
      let ?init = "\<lparr>prev_ts = fst r0, prev_raw = py_or (snd (snd r0)) (py ''Unknown''),
          prev_key = k, prev_state = idle, minutes_by_key = [], name_by_key = []\<rparr>"
      show ?thesis
      proof (cases "usage_loop (r0 # rest) ?init")
        case (Inl e)
        then show ?thesis using Inr by (simp add: get_apps_usage_unfold sel)
      next
        case (Inr st)
        have "prev_state st = fold (\<lambda>r. reclassify (fst (snd r))) (r0 # rest) (prev_state ?init)"
          using usage_loop_final [OF Inr] by simp
        then have "prev_state st = idle" using ends_idle Cons by simp
        then have "\<And>t. close_usage_tail st t = st" by (simp add: close_usage_tail_def)
        then show ?thesis
          using Inr \<open>normalize_name (Some (py_or (snd (snd r0)) (py ''Unknown''))) = Inr k\<close>
          by (simp add: get_apps_usage_unfold sel)
      qed
    qed
  qed
next
  assume a: "fold (\<lambda>r. reclassify (fst (snd r))) rows idle = active
            \<and> fst (last rows) \<le> now1
            \<and> min now1 (snd (day_bounds d)) + 600000 < min now2 (snd (day_bounds d))
            \<and> get_apps_usage db now1 emp (Some d) = Inr out1"
  define t1 where "t1 = min now1 (snd (day_bounds d))"
  define t2 where "t2 = min now2 (snd (day_bounds d))"
  have ends_active: "fold (\<lambda>r. reclassify (fst (snd r))) rows idle = active"
    and after: "fst (last rows) \<le> now1" and apart: "t1 + 600000 < t2"
    and g1: "get_apps_usage db now1 emp (Some d) = Inr out1"
    using a by (simp_all add: t1_def t2_def)
  obtain r0 rest where Cons: "rows = r0 # rest"
    using ends_active by (cases rows) auto
  then have sel: "select_app_rows db emp (fst (day_bounds d)) (snd (day_bounds d)) = r0 # rest"
    using rows by simp
  obtain k where nk: "normalize_name (Some (py_or (snd (snd r0)) (py ''Unknown''))) = Inr k"
    using g1 by (cases "normalize_name (Some (py_or (snd (snd r0)) (py ''Unknown'')))")
      (simp_all add: get_apps_usage_unfold sel)
  let ?init = "\<lparr>prev_ts = fst r0, prev_raw = py_or (snd (snd r0)) (py ''Unknown''),
      prev_key = k, prev_state = idle, minutes_by_key = [], name_by_key = []\<rparr>"
  obtain st where loop: "usage_loop (r0 # rest) ?init = Inr st"
    using g1 nk by (cases "usage_loop (r0 # rest) ?init")
      (simp_all add: get_apps_usage_unfold sel)
  have fin: "prev_state st = active" "prev_ts st = fst (last rows)"
    "distinct (map fst (minutes_by_key st))" "\<forall>kv \<in> set (minutes_by_key st). 0 \<le> snd kv"
    using usage_loop_final [OF loop] ends_active Cons by (simp_all add: last_map)
  have "rows \<noteq> []" using Cons by simp
  then have "last rows \<in> set rows" by (rule last_in_set)
  then have "last rows \<in> set (select_app_rows db emp (fst (day_bounds d)) (snd (day_bounds d)))"
    unfolding rows .
  then have "fst (last rows) \<le> snd (day_bounds d)"
    by (rule select_app_rows_bounds [THEN conjunct2])
  then have le1: "prev_ts st \<le> t1" using after fin(2) by (simp add: t1_def)
  then have lt2: "prev_ts st < t2" using apart by simp
  define m where "m = minutes_by_key st"
  define x where "x = dict_get m (prev_key st) 0"
  define c1 where "c1 = total_minutes (prev_ts st) t1"
  define c2 where "c2 = total_minutes (prev_ts st) t2"
  have x0: "0 \<le> x" unfolding x_def m_def by (rule dict_get_nonneg [OF fin(4)])
  have c10: "0 \<le> c1" unfolding c1_def using le1 by (rule total_minutes_nonneg)
  have gap: "c1 + 1 / 100 < c2"
    using apart by (simp add: c1_def c2_def total_minutes_def field_simps)
  let ?s1 = "close_usage_tail st t1"
  let ?s2 = "close_usage_tail st t2"
  have out1: "out1 = usage_out (minutes_by_key ?s1) (name_by_key ?s1)"
    using g1 nk loop by (simp add: get_apps_usage_unfold sel t1_def)
  have res2: "get_apps_usage db now2 emp (Some d)
      = Inr (usage_out (minutes_by_key ?s2) (name_by_key ?s2))"
    using nk loop by (simp add: get_apps_usage_unfold sel t2_def)
  have m2: "minutes_by_key ?s2 = dict_set m (prev_key st) (x + c2)"
    using lt2 fin(1) gap c10
    by (simp add: close_usage_tail_def minutes_credit m_def x_def c2_def)
  have d1: "distinct (map fst (minutes_by_key ?s1))"
    using credit_keeps_invariant [OF fin(3,4)] fin(3) by (simp add: close_usage_tail_def)
  have v1: "dict_get (minutes_by_key ?s1) (prev_key st) 0 = x + c1"
  proof (cases "prev_ts st < t1")
    case True
    then show ?thesis
      using fin(1) c10
      by (simp add: close_usage_tail_def minutes_credit dict_get_dict_set m_def x_def c1_def)
  next
    case False
    then have "prev_ts st = t1" using le1 by simp
    then have "c1 = 0" by (simp add: c1_def total_minutes_def)
    then show ?thesis using False by (simp add: close_usage_tail_def x_def m_def)
  qed
  have "(prev_key st, x + c2) \<in> set (minutes_by_key ?s2)"
    unfolding m2 using map_of_dict_set [of m "prev_key st" "x + c2"]
    by (metis fun_upd_same map_of_SomeD)
  moreover have "0 < x + c2" using x0 c10 gap by linarith
  ultimately have e2: "\<lparr>app = dict_get (name_by_key ?s2) (prev_key st) (title (prev_key st)),
      key = prev_key st, minutes = round2 (x + c2)\<rparr>
      \<in> set (usage_out (minutes_by_key ?s2) (name_by_key ?s2))"
    unfolding set_usage_out by force
  show "get_apps_usage db now2 emp (Some d) \<noteq> Inr out1"
  proof
    assume "get_apps_usage db now2 emp (Some d) = Inr out1"
    then have "usage_out (minutes_by_key ?s2) (name_by_key ?s2)
        = usage_out (minutes_by_key ?s1) (name_by_key ?s1)"
      using res2 out1 by simp
    then have "\<lparr>app = dict_get (name_by_key ?s2) (prev_key st) (title (prev_key st)),
      key = prev_key st, minutes = round2 (x + c2)\<rparr>
      \<in> set (usage_out (minutes_by_key ?s1) (name_by_key ?s1))"
      using e2 by simp
    from minutes_usage_out [OF d1 this] have "round2 (x + c2) = round2 (x + c1)"
      using v1 by simp
    moreover have "round2 (x + c1) < round2 (x + c2)"
      by (rule round2_strict) (use gap in simp)
    ultimately show False by simp
  qed
qed

text \<open>
  Two calls after the day has ended; two calls on a day that ended idle; and two calls ten
  minutes apart while the subject is active.
\<close>

theorem apps_usage_clock_dependence_witness:
  "get_apps_usage \<lparr>employees = [py ''e1''],
       events = [\<lparr>employee_id = py ''e1'', timestamp = 0, event_type = py ''active'',
                  active_window = Some (py ''Google Chrome - New Tab''),
                  process_name = Some (py ''chrome.exe'')\<rparr>],
       screenshots = [], movement_logs = [], accepts_writes = True\<rparr> 90000000000 (py ''e1'') (Some 0)
     = get_apps_usage \<lparr>employees = [py ''e1''],
       events = [\<lparr>employee_id = py ''e1'', timestamp = 0, event_type = py ''active'',
                  active_window = Some (py ''Google Chrome - New Tab''),
                  process_name = Some (py ''chrome.exe'')\<rparr>],
       screenshots = [], movement_logs = [], accepts_writes = True\<rparr> 100000000000 (py ''e1'') (Some 0)
   \<and> get_apps_usage \<lparr>employees = [py ''e1''],
       events = [\<lparr>employee_id = py ''e1'', timestamp = 0, event_type = py ''active'',
                  active_window = Some (py ''Google Chrome - New Tab''),
                  process_name = Some (py ''chrome.exe'')\<rparr>,
                 \<lparr>employee_id = py ''e1'', timestamp = 300000000, event_type = py ''idle'',
                  active_window = Some (py ''Google Chrome - New Tab''),
                  process_name = Some (py ''chrome.exe'')\<rparr>],
       screenshots = [], movement_logs = [], accepts_writes = True\<rparr> 600000000 (py ''e1'') (Some 0)
     = get_apps_usage \<lparr>employees = [py ''e1''],
       events = [\<lparr>employee_id = py ''e1'', timestamp = 0, event_type = py ''active'',
                  active_window = Some (py ''Google Chrome - New Tab''),
                  process_name = Some (py ''chrome.exe'')\<rparr>,
                 \<lparr>employee_id = py ''e1'', timestamp = 300000000, event_type = py ''idle'',
                  active_window = Some (py ''Google Chrome - New Tab''),
                  process_name = Some (py ''chrome.exe'')\<rparr>],
       screenshots = [], movement_logs = [], accepts_writes = True\<rparr> 1200000000 (py ''e1'') (Some 0)
   \<and> get_apps_usage \<lparr>employees = [py ''e1''],
       events = [\<lparr>employee_id = py ''e1'', timestamp = 0, event_type = py ''active'',
                  active_window = Some (py ''Google Chrome - New Tab''),
                  process_name = Some (py ''chrome.exe'')\<rparr>],
       screenshots = [], movement_logs = [], accepts_writes = True\<rparr> 600000000 (py ''e1'') (Some 0)
     = Inr [\<lparr>app = py ''chrome.exe'', key = py ''chrome'', minutes = 10\<rparr>]
   \<and> get_apps_usage \<lparr>employees = [py ''e1''],
       events = [\<lparr>employee_id = py ''e1'', timestamp = 0, event_type = py ''active'',
                  active_window = Some (py ''Google Chrome - New Tab''),
                  process_name = Some (py ''chrome.exe'')\<rparr>],
       screenshots = [], movement_logs = [], accepts_writes = True\<rparr> 1200000000 (py ''e1'') (Some 0)
     \<noteq> Inr [\<lparr>app = py ''chrome.exe'', key = py ''chrome'', minutes = 10\<rparr>]"
proof -
  let ?a = "\<lparr>employee_id = py ''e1'', timestamp = 0, event_type = py ''active'',
                  active_window = Some (py ''Google Chrome - New Tab''),
                  process_name = Some (py ''chrome.exe'')\<rparr>"
  let ?i = "\<lparr>employee_id = py ''e1'', timestamp = 300000000, event_type = py ''idle'',
                  active_window = Some (py ''Google Chrome - New Tab''),
                  process_name = Some (py ''chrome.exe'')\<rparr>"
  let ?dba = "\<lparr>employees = [py ''e1''], events = [?a],
       screenshots = [], movement_logs = [], accepts_writes = True\<rparr>"
  let ?dbi = "\<lparr>employees = [py ''e1''], events = [?a, ?i],
       screenshots = [], movement_logs = [], accepts_writes = True\<rparr>"
  have b: "day_bounds 0 = (0, 86399999999)"
    by (simp add: day_bounds_def usec_per_day_def)
  have ra: "select_app_rows ?dba (py ''e1'') (fst (day_bounds 0)) (snd (day_bounds 0))
      = [(0, py ''active'', Some (py ''chrome.exe''))]"
    by (simp add: b select_app_rows_def select_events_def)
  have ri: "select_app_rows ?dbi (py ''e1'') (fst (day_bounds 0)) (snd (day_bounds 0))
      = [(0, py ''active'', Some (py ''chrome.exe'')), (300000000, py ''idle'', Some (py ''chrome.exe''))]"
    by (simp add: b select_app_rows_def select_events_def)
  have h1: "min 90000000000 (snd (day_bounds 0)) = min 100000000000 (snd (day_bounds 0))"
    by (simp add: b)
  have h2: "fold (\<lambda>r. reclassify (fst (snd r)))
      (select_app_rows ?dbi (py ''e1'') (fst (day_bounds 0)) (snd (day_bounds 0))) idle = idle"
    by (simp add: ri reclassify_def py_inject)
  have h3: "fold (\<lambda>r. reclassify (fst (snd r)))
      (select_app_rows ?dba (py ''e1'') (fst (day_bounds 0)) (snd (day_bounds 0))) idle = active"
    by (simp add: ra reclassify_def py_inject)
  have h4: "fst (last (select_app_rows ?dba (py ''e1'') (fst (day_bounds 0)) (snd (day_bounds 0))))
      \<le> 600000000"
    by (simp add: ra)
  have h5: "min 600000000 (snd (day_bounds 0)) + 600000 < min 1200000000 (snd (day_bounds 0))"
    by (simp add: b)
  have h6: "get_apps_usage ?dba 600000000 (py ''e1'') (Some 0)
     = Inr [\<lparr>app = py ''chrome.exe'', key = py ''chrome'', minutes = 10\<rparr>]"
    by (simp add: usage_eval)
  note t1 = apps_usage_clock_dependence [OF refl, of 90000000000 0 100000000000 ?dba "py ''e1''",
      THEN conjunct1, rule_format, OF h1]
  note t2 = apps_usage_clock_dependence [OF refl, of 600000000 0 1200000000 ?dbi "py ''e1''",
      THEN conjunct2, THEN conjunct1, rule_format, OF h2]
  note t3 = apps_usage_clock_dependence [OF refl, of 600000000 0 1200000000 ?dba "py ''e1''",
      THEN conjunct2, THEN conjunct2, rule_format, OF conjI [OF h3 conjI [OF h4 conjI [OF h5 h6]]]]
  show ?thesis using t1 t2 t3 h6 by blast
qed

section \<open>Names without a token\<close>

text \<open>
  Claim C5. The claim says that a name matching no alias falls back to its first token.
  \<^verbatim>\<open>_normalize\<close> returns \<^verbatim>\<open>'unknown'\<close> for an empty name, but a non-empty name whose
  normalized form is empty is not guarded: for the window title \<^verbatim>\<open>foo/\<close> the last path
  component is the empty string, no alias matches, \<^verbatim>\<open>n.split()\<close> is empty and the
  subscript \<^verbatim>\<open>[0]\<close> raises \<^verbatim>\<open>IndexError\<close>, which leaves \<^verbatim>\<open>get_apps_usage\<close> as well.
\<close>

theorem normalize_raises_without_token:
  "py ''foo/'' \<noteq> []
   \<and> normalized_form (py ''foo/'') = []
   \<and> find (\<lambda>(k, v). contains k (normalized_form (py ''foo/''))) aliases = None
   \<and> split_whitespace (normalized_form (py ''foo/'')) = []
   \<and> normalize_name (Some (py ''foo/'')) = Inl IndexError
   \<and> get_apps_usage \<lparr>employees = [py ''e1''],
       events = [\<lparr>employee_id = py ''e1'', timestamp = 0, event_type = py ''active'',
                  active_window = Some (py ''foo/''), process_name = None\<rparr>],
       screenshots = [], movement_logs = [], accepts_writes = True\<rparr> 600000000 (py ''e1'') (Some 0)
     = Inl IndexError"
proof -
  have ne: "py ''foo/'' \<noteq> []" by (simp add: py_Nil)
  have "normalized_form (py ''foo/'') = last (split (py ''foo/'') [47])"
  proof (rule normalized_form_steps)
    show "strip (py ''foo/'') = py ''foo/''"
      by (simp add: strip_def isspace_def py_def)
    show "cut_separators (py ''foo/'') = py ''foo/''"
      by (rule cut_separators_absent) (simp_all add: py_def)
    show "strip (filter (\<lambda>c. c \<noteq> 8203) (py ''foo/'')) = py ''foo/''"
      by (simp add: strip_def isspace_def py_def)
    show "lower (py ''foo/'') = py ''foo/''"
      by (simp add: lower_def lower_char_def py_def)
    show "(if endswith (py ''foo/'') (py ''.exe'')
           then take (length (py ''foo/'') - 4) (py ''foo/'') else py ''foo/'') = py ''foo/''"
      by (simp add: endswith_def py_def)
    show "last (split (py ''foo/'') [92]) = py ''foo/''"
      by (simp add: split_def py_def)
  qed
  then have nf: "normalized_form (py ''foo/'') = []"
    by (simp add: split_def py_def)
  have fa: "find (\<lambda>(k, v). contains k (normalized_form (py ''foo/''))) aliases = None"
    by (simp add: nf aliases_def py_Nil)
  have sw: "split_whitespace (normalized_form (py ''foo/'')) = []"
    by (simp add: nf split_whitespace_def)
  have nn: "normalize_name (Some (py ''foo/'')) = Inl IndexError"
    using ne by (simp add: normalize_name_def fa sw)
  have ga: "get_apps_usage \<lparr>employees = [py ''e1''],
       events = [\<lparr>employee_id = py ''e1'', timestamp = 0, event_type = py ''active'',
                  active_window = Some (py ''foo/''), process_name = None\<rparr>],
       screenshots = [], movement_logs = [], accepts_writes = True\<rparr> 600000000 (py ''e1'') (Some 0)
     = Inl IndexError"
    by (simp add: get_apps_usage_def select_app_rows_def select_events_def day_bounds_def
        usec_per_day_def py_or_def py_Nil nn)
  show ?thesis using ne nf fa sw nn ga by blast
qed

section \<open>Daily statistics without the tail\<close>

text \<open>
  The active and idle minutes of \<^verbatim>\<open>get_daily_stats\<close> are the rounded sums of the loop
  alone, the same loop as in \<^verbatim>\<open>_sum_active_idle\<close>.
\<close>

lemma daily_loop_segment_loop:
  "segment_loop evs p st a i = (p', st', a', i') \<Longrightarrow>
   \<exists>au'. daily_loop (map (\<lambda>e. (timestamp e, event_type e, active_window e)) evs) p st a i au
     = (a', i', au')"
proof (induction evs arbitrary: p st a i au)
  case Nil
  then show ?case by simp
next
  case (Cons e evs)
  from Cons.prems show ?case
    by (simp add: Let_def Cons.IH)
qed

lemma daily_stats_loop_only:
  assumes rows: "select_events db emp (fst (day_bounds d)) (snd (day_bounds d)) = r0 # rest"
    and loop: "segment_loop (r0 # rest) (timestamp r0) idle 0 0 = (p, st, a, i)"
  shows "active_time_min (get_daily_stats db now emp (Some d)) = round2 a
       \<and> idle_time_min (get_daily_stats db now emp (Some d)) = round2 i"
proof -
  obtain au where "daily_loop (map (\<lambda>e. (timestamp e, event_type e, active_window e)) (r0 # rest))
      (timestamp r0) idle 0 0 [] = (a, i, au)"
    using daily_loop_segment_loop [OF loop] by blast
  then have dl: "daily_loop ((timestamp r0, event_type r0, active_window r0)
        # map (\<lambda>e. (timestamp e, event_type e, active_window e)) rest)
      (timestamp r0) idle 0 0 [] = (a, i, au)"
    by (simp del: daily_loop.simps)
  show ?thesis
    using rows dl
    by (simp add: get_daily_stats_def select_stats_rows_def split_beta del: daily_loop.simps)
qed

text \<open>
  Claim C2. The claim asks every timeline query to add the time from the last event to the
  end of the range to the bucket of the last state. \<^verbatim>\<open>_sum_active_idle\<close> does so, but
  \<^verbatim>\<open>get_daily_stats\<close> returns right after its loop: for a subject whose only event of
  the day is a \<^verbatim>\<open>window_change\<close> ten minutes before the end of the day it reports no
  active minute, where \<^verbatim>\<open>_sum_active_idle\<close> over the same day reports ten.
\<close>

theorem daily_stats_misses_tail:
  "get_daily_stats \<lparr>employees = [py ''e1''],
       events = [\<lparr>employee_id = py ''e1'', timestamp = 85799999999,
                  event_type = py ''window_change'',
                  active_window = Some (py ''Editor''), process_name = None\<rparr>],
       screenshots = [], movement_logs = [], accepts_writes = True\<rparr>
       90000000000 (py ''e1'') (Some 0)
     = \<lparr>date = 0, active_time_min = 0, idle_time_min = 0, screenshot_count = 0,
        idle_photo_count = 0, top_apps = [(py ''Editor'', 0)]\<rparr>
   \<and> day_bounds 0 = (0, 86399999999)
   \<and> sum_active_idle \<lparr>employees = [py ''e1''],
       events = [\<lparr>employee_id = py ''e1'', timestamp = 85799999999,
                  event_type = py ''window_change'',
                  active_window = Some (py ''Editor''), process_name = None\<rparr>],
       screenshots = [], movement_logs = [], accepts_writes = True\<rparr>
       (py ''e1'') 0 86399999999 = (10, 0)"
proof -
  have r0: "round2 0 = 0" "round2 10 = 10"
    by (simp_all add: round2_def round_half_even_def)
  have b: "day_bounds 0 = (0, 86399999999)"
    by (simp add: day_bounds_def usec_per_day_def)
  have g: "get_daily_stats \<lparr>employees = [py ''e1''],
       events = [\<lparr>employee_id = py ''e1'', timestamp = 85799999999,
                  event_type = py ''window_change'',
                  active_window = Some (py ''Editor''), process_name = None\<rparr>],
       screenshots = [], movement_logs = [], accepts_writes = True\<rparr>
       90000000000 (py ''e1'') (Some 0)
     = \<lparr>date = 0, active_time_min = 0, idle_time_min = 0, screenshot_count = 0,
        idle_photo_count = 0, top_apps = [(py ''Editor'', 0)]\<rparr>"
    by (simp add: get_daily_stats_def b select_stats_rows_def select_events_def
        count_screenshots_def count_idle_photos_def total_minutes_def py_Nil py_inject
        dict_get_def sorted_by_value_desc_def r0)
  have s: "sum_active_idle \<lparr>employees = [py ''e1''],
       events = [\<lparr>employee_id = py ''e1'', timestamp = 85799999999,
                  event_type = py ''window_change'',
                  active_window = Some (py ''Editor''), process_name = None\<rparr>],
       screenshots = [], movement_logs = [], accepts_writes = True\<rparr>
       (py ''e1'') 0 86399999999 = (10, 0)"
    by (simp add: sum_active_idle_def select_events_def close_tail_def reclassify_def
        total_minutes_def py_inject r0)
  show ?thesis using g b s by blast
qed

end
